theory Spec2Isabelle
  imports Main "HOL-Library.Char_ord" "HOL-Library.List_Lexorder" "HOL-Library.AList"
begin

section \<open>Strings\<close>

text \<open>
  A JavaScript string is a sequence of UTF-16 code units. Here a string is a
  \<^typ>\<open>string\<close>, each \<^typ>\<open>char\<close> standing for one code unit in the range 0..255
  (ASCII and Latin-1). Every operation the wizard applies to strings (regular
  expressions without the \<open>u\<close> flag, \<open>replaceAll\<close>, comparison in \<open>sort\<close>) works
  code unit by code unit. \<open>HOL-Library.Char_ord\<close> orders characters by their code,
  \<open>HOL-Library.List_Lexorder\<close> orders strings lexicographically, a proper prefix
  first: the order of the relational operators on JavaScript strings.
\<close>

definition is_line_terminator :: "char \<Rightarrow> bool" where
  \<comment> \<open>LF and CR; U+2028 and U+2029 lie outside the modelled range\<close>
  "is_line_terminator ch = (ch = CHR 0x0A \<or> ch = CHR 0x0D)"

definition lower_char :: "char \<Rightarrow> char" where
  \<comment> \<open>Unicode lower-case mapping on U+0000..U+00FF: A-Z and the
      Latin-1 capitals U+00C0..U+00DE, the multiplication sign U+00D7 apart\<close>
  "lower_char ch =
     (if (CHR ''A'' \<le> ch \<and> ch \<le> CHR ''Z'') \<or>
         (CHR 0xC0 \<le> ch \<and> ch \<le> CHR 0xDE \<and> ch \<noteq> CHR 0xD7)
      then char_of (of_char ch + (32::nat)) else ch)"

definition toLowerCase :: "string \<Rightarrow> string" where
  "toLowerCase s = map lower_char s"

fun join_with :: "string \<Rightarrow> string list \<Rightarrow> string" where
  \<comment> \<open>\<open>Array.prototype.join\<close> on an array of strings\<close>
  "join_with sep [] = []"
| "join_with sep [x] = x"
| "join_with sep (x # y # ys) = x @ sep @ join_with sep (y # ys)"

section \<open>Regular expressions\<close>

text \<open>
  The three regular expressions of \<open>setup.mjs\<close> use line anchors, literal text, the
  dot, character classes of ranges, \<open>?\<close>, \<open>*\<close>, \<open>+\<close> and one capture group. They
  are run by a backtracking matcher: \<open>rx_match p st\<close> lists, in the order in which
  backtracking tries them, the states in which \<open>p\<close> can end when started in \<open>st\<close>.
  A state holds the input before the current position, the input after it, and the
  text of capture group 1 (\<open>None\<close> for undefined).
\<close>

datatype rx =
    Bol                         \<comment> \<open>\<open>^\<close> (no \<open>m\<close> flag: start of input)\<close>
  | Eol                         \<comment> \<open>\<open>$\<close> (no \<open>m\<close> flag: end of input)\<close>
  | Lit string                  \<comment> \<open>literal characters\<close>
  | Dot                         \<comment> \<open>\<open>.\<close> (no \<open>s\<close> flag: any character but a line terminator)\<close>
  | Cls "(char \<times> char) list"    \<comment> \<open>\<open>[a-z...]\<close>, a list of inclusive ranges\<close>
  | Seq rx rx
  | Opt rx                      \<comment> \<open>greedy \<open>?\<close>\<close>
  | Star rx                     \<comment> \<open>greedy \<open>*\<close>\<close>
  | Grp rx                      \<comment> \<open>capture group 1\<close>

abbreviation Plus :: "rx \<Rightarrow> rx" where
  \<comment> \<open>greedy \<open>+\<close>\<close>
  "Plus p \<equiv> Seq p (Star p)"

type_synonym mstate = "string \<times> string \<times> string option"

definition in_class :: "(char \<times> char) list \<Rightarrow> char \<Rightarrow> bool" where
  "in_class rs ch = list_ex (\<lambda>(lo, hi). lo \<le> ch \<and> ch \<le> hi) rs"

function rx_match :: "rx \<Rightarrow> mstate \<Rightarrow> mstate list" where
  "rx_match Bol (b, r, c) = (if b = [] then [(b, r, c)] else [])"
| "rx_match Eol (b, r, c) = (if r = [] then [(b, r, c)] else [])"
| "rx_match (Lit w) (b, r, c) =
     (if take (length w) r = w then [(b @ w, drop (length w) r, c)] else [])"
| "rx_match Dot (b, r, c) =
     (case r of [] \<Rightarrow> []
      | y # ys \<Rightarrow> if is_line_terminator y then [] else [(b @ [y], ys, c)])"
| "rx_match (Cls rs) (b, r, c) =
     (case r of [] \<Rightarrow> []
      | y # ys \<Rightarrow> if in_class rs y then [(b @ [y], ys, c)] else [])"
| "rx_match (Seq p q) (b, r, c) = concat (map (rx_match q) (rx_match p (b, r, c)))"
| "rx_match (Opt p) (b, r, c) = rx_match p (b, r, c) @ [(b, r, c)]"
| "rx_match (Star p) (b, r, c) =
     concat (map (\<lambda>(b', r', c').
                    \<comment> \<open>an iteration that consumes nothing is rejected\<close>
                    if length r' < length r then rx_match (Star p) (b', r', c') else [])
                 (rx_match p (b, r, c)))
     @ [(b, r, c)]"
| "rx_match (Grp p) (b, r, c) =
     map (\<lambda>(b', r', c'). (b', r', Some (drop (length b) b'))) (rx_match p (b, r, c))"
  by pat_completeness auto
termination
  by (relation "measures [\<lambda>(p, st). size p, \<lambda>(p, b, r, c). length r]") auto

text \<open>
  \<open>RegExp.prototype.exec\<close> of a regular expression without the \<open>g\<close> and \<open>y\<close> flags:
  the start positions are tried from index 0 upwards and the first way the matcher
  succeeds is the match.
\<close>

fun rx_exec_from :: "rx \<Rightarrow> string \<Rightarrow> string \<Rightarrow> mstate option" where
  "rx_exec_from p b [] =
     (case rx_match p (b, [], None) of st # _ \<Rightarrow> Some st | [] \<Rightarrow> None)"
| "rx_exec_from p b (y # ys) =
     (case rx_match p (b, y # ys, None) of st # _ \<Rightarrow> Some st
      | [] \<Rightarrow> rx_exec_from p (b @ [y]) ys)"

definition rx_exec :: "rx \<Rightarrow> string \<Rightarrow> mstate option" where
  "rx_exec p s = rx_exec_from p [] s"

definition rx_test :: "rx \<Rightarrow> string \<Rightarrow> bool" where
  \<comment> \<open>\<open>RegExp.prototype.test\<close>\<close>
  "rx_test p s = (rx_exec p s \<noteq> None)"

definition rx_group1 :: "rx \<Rightarrow> string \<Rightarrow> string option option" where
  \<comment> \<open>\<open>s.match(p)\<close>: \<open>None\<close> for null, otherwise element 1 of the match array\<close>
  "rx_group1 p s = map_option (\<lambda>(b, r, c). c) (rx_exec p s)"

section \<open>Configuration\<close>

definition TEMPLATE_NAME :: string where
  "TEMPLATE_NAME = ''template''"

definition letter_ranges :: "(char \<times> char) list" where
  "letter_ranges = [(CHR ''a'', CHR ''z''), (CHR ''A'', CHR ''Z'')]"

definition word_ranges :: "(char \<times> char) list" where
  "word_ranges = [(CHR ''a'', CHR ''z''), (CHR ''A'', CHR ''Z''), (CHR ''0'', CHR ''9''),
                  (CHR ''_'', CHR ''_'')]"

definition identifier_rx :: rx where
  \<comment> \<open>\<open>/^[a-zA-Z][a-zA-Z0-9_]*$/\<close>\<close>
  "identifier_rx = Seq Bol (Seq (Cls letter_ranges) (Seq (Star (Cls word_ranges)) Eol))"

definition url_rx :: rx where
  \<comment> \<open>\<open>/^https?:\/\/.+/\<close>\<close>
  "url_rx = Seq Bol (Seq (Lit ''http'') (Seq (Opt (Lit ''s'')) (Seq (Lit ''://'') (Plus Dot))))"

record variable =
  key :: string
  prompt_text :: string
  description :: string
  validate :: "string \<Rightarrow> bool"
  error_text :: string
  optional :: bool

definition VARIABLES :: "variable list" where
  "VARIABLES = [
     \<lparr> key = ''MCP_NAME'', prompt_text = ''MCP server name'',
       description = ''A unique identifier for your MCP server (e.g., weather_api, slack_mcp).''
                     @ [CHR 0x0A] @ ''This will be used for file names and labels in Salesforce.'',
       validate = (\<lambda>val. rx_test identifier_rx val),
       error_text = ''Must start with a letter and contain only letters, numbers, and underscores.'',
       optional = False \<rparr>,
     \<lparr> key = ''MCP_SERVER_URL'', prompt_text = ''MCP server URL'',
       description = ''The full URL of your MCP server endpoint.''
                     @ [CHR 0x0A] @ ''Example: https://mcp.example.com/api'',
       validate = (\<lambda>val. rx_test url_rx val),
       error_text = ''Must be a valid URL starting with http:// or https://'',
       optional = False \<rparr>,
     \<lparr> key = ''AUTH_PROVIDER_URL'', prompt_text = ''OAuth token endpoint URL'',
       description = ''The OAuth 2.0 token endpoint for authentication.''
                     @ [CHR 0x0A] @ ''Example: https://auth.example.com/oauth/token'',
       validate = (\<lambda>val. rx_test url_rx val),
       error_text = ''Must be a valid URL starting with http:// or https://'',
       optional = False \<rparr>,
     \<lparr> key = ''NAMESPACE'', prompt_text = ''Salesforce namespace (optional)'',
       description = ''Your Salesforce namespace prefix, if applicable.''
                     @ [CHR 0x0A] @ ''Leave empty if you don'' @ [CHR 0x27] @ ''t have a namespace.'',
       validate = (\<lambda>val. val = [] \<or> rx_test identifier_rx val),
       error_text = ''Must start with a letter and contain only letters, numbers, and underscores.'',
       optional = True \<rparr> ]"

record file_rule =
  dir :: string
  oldName :: string
  newName :: "string \<Rightarrow> string"

definition FILES :: "file_rule list" where
  "FILES = [
     \<lparr> dir = ''externalCredentials'',
       oldName = TEMPLATE_NAME @ ''.externalCredential-meta.xml'',
       newName = (\<lambda>name. name @ ''.externalCredential-meta.xml'') \<rparr>,
     \<lparr> dir = ''externalServiceRegistrations'',
       oldName = TEMPLATE_NAME @ ''.externalServiceRegistration-meta.xml'',
       newName = (\<lambda>name. name @ ''.externalServiceRegistration-meta.xml'') \<rparr>,
     \<lparr> dir = ''namedCredentials'',
       oldName = TEMPLATE_NAME @ ''.namedCredential-meta.xml'',
       newName = (\<lambda>name. name @ ''.namedCredential-meta.xml'') \<rparr>,
     \<lparr> dir = ''permissionsets'',
       oldName = TEMPLATE_NAME @ ''_Perm_Set.permissionset-meta.xml'',
       newName = (\<lambda>name. name @ ''_Perm_Set.permissionset-meta.xml'') \<rparr> ]"

section \<open>\<open>String.prototype.replaceAll\<close>\<close>

text \<open>
  \<open>applyReplacements\<close> calls \<open>replaceAll\<close> with a string pattern and a string
  replacement. The definitions follow the steps of ECMAScript for that case:
  \<open>StringIndexOf\<close> finds the next occurrence, the occurrences are collected from left
  to right, each one \<open>max 1 (length searchString)\<close> after the start of the one before, and
  the result is put together from the text between the occurrences and, for each
  occurrence, the expansion \<open>GetSubstitution\<close> of the replacement.
\<close>

function StringIndexOf :: "string \<Rightarrow> string \<Rightarrow> nat \<Rightarrow> nat option" where
  "StringIndexOf s searchValue fromIndex =
     (if length s < fromIndex + length searchValue then None
      else if take (length searchValue) (drop fromIndex s) = searchValue then Some fromIndex
      else StringIndexOf s searchValue (Suc fromIndex))"
  by pat_completeness auto
termination
  by (relation "measure (\<lambda>(s, searchValue, fromIndex). Suc (length s) - fromIndex)") auto

declare StringIndexOf.simps [simp del]

lemma StringIndexOf_bounds:
  "StringIndexOf s w i = Some p \<Longrightarrow> i \<le> p \<and> p + length w \<le> length s"
proof (induction s w i rule: StringIndexOf.induct)
  case (1 s w i)
  show ?case
  proof (cases "length s < i + length w")
    case True
    with "1.prems" show ?thesis by (simp add: StringIndexOf.simps [of s w i])
  next
    case False
    show ?thesis
    proof (cases "take (length w) (drop i s) = w")
      case True
      with False "1.prems" show ?thesis by (simp add: StringIndexOf.simps [of s w i])
    next
      case no: False
      with False "1.prems" have "StringIndexOf s w (Suc i) = Some p"
        by (simp add: StringIndexOf.simps [of s w i])
      with "1.IH" False no show ?thesis by fastforce
    qed
  qed
qed

function matchPositions :: "string \<Rightarrow> string \<Rightarrow> nat \<Rightarrow> nat list" where
  "matchPositions s searchString position =
     (case StringIndexOf s searchString position of
        None \<Rightarrow> []
      | Some p \<Rightarrow> p # matchPositions s searchString (p + max 1 (length searchString)))"
  by pat_completeness auto
termination
  by (relation "measure (\<lambda>(s, searchString, position). Suc (length s) - position)")
     (auto dest!: StringIndexOf_bounds)

declare matchPositions.simps [simp del]

fun GetSubstitution :: "string \<Rightarrow> string \<Rightarrow> nat \<Rightarrow> string \<Rightarrow> string" where
  \<comment> \<open>no captures and no named captures: \<open>$$\<close>, \<open>$`\<close>, \<open>$&\<close> and \<open>$'\<close> are
      expanded, every other character (also a \<open>$\<close> before digits or \<open><\<close>) stands for
      itself\<close>
  "GetSubstitution matched str position [] = []"
| "GetSubstitution matched str position [c] = [c]"
| "GetSubstitution matched str position (c # d # rest) =
     (if c = CHR ''$'' \<and> d = CHR ''$'' then
        CHR ''$'' # GetSubstitution matched str position rest
      else if c = CHR ''$'' \<and> d = CHR 0x60 then
        take position str @ GetSubstitution matched str position rest
      else if c = CHR ''$'' \<and> d = CHR ''&'' then
        matched @ GetSubstitution matched str position rest
      else if c = CHR ''$'' \<and> d = CHR 0x27 then
        drop (min (position + length matched) (length str)) str
        @ GetSubstitution matched str position rest
      else c # GetSubstitution matched str position (d # rest))"

fun replaceAll_build :: "string \<Rightarrow> string \<Rightarrow> string \<Rightarrow> nat \<Rightarrow> nat list \<Rightarrow> string \<Rightarrow> string" where
  "replaceAll_build str searchString replaceValue endOfLastMatch [] result =
     (if endOfLastMatch < length str then result @ drop endOfLastMatch str else result)"
| "replaceAll_build str searchString replaceValue endOfLastMatch (p # ps) result =
     replaceAll_build str searchString replaceValue (p + length searchString) ps
       (result @ take (p - endOfLastMatch) (drop endOfLastMatch str)
               @ GetSubstitution searchString str p replaceValue)"

definition replaceAll :: "string \<Rightarrow> string \<Rightarrow> string \<Rightarrow> string" where
  "replaceAll str searchString replaceValue =
     replaceAll_build str searchString replaceValue 0 (matchPositions str searchString 0) []"

section \<open>File operations\<close>

text \<open>
  The file system is the content of \<open>FORCE_APP_DIR\<close>: for each name, whether a
  directory of that name is there, and the entries of the directory in the order in
  which \<open>readdirSync\<close> lists them. An entry is a regular file with its text (as decoded by
  \<open>readFileSync(path, 'utf8')\<close>) or a folder. A path below \<open>FORCE_APP_DIR\<close> is a pair of
  a directory name and a file name. A file has one name (there are no links, and names
  that differ in case are different names), and a file name of more than \<open>NAME_MAX\<close>
  bytes in UTF-8 is refused by the file system: such a path does not exist, and reading
  or writing it fails with \<open>ENAMETOOLONG\<close>. Other failures of the operating system
  (permissions, a full disk) are outside the model.
\<close>

datatype node = File string | Folder

type_synonym directory = "(string \<times> node) list"

datatype slot = Missing | NotDirectory | Directory directory

type_synonym filesystem = "string \<Rightarrow> slot"

type_synonym path = "string \<times> string"

datatype io_error = ENOENT | ENOTDIR | EISDIR | ENAMETOOLONG

definition NAME_MAX :: nat where
  "NAME_MAX = 255"

definition utf8_length :: "string \<Rightarrow> nat" where
  \<comment> \<open>a code unit below U+0080 takes one byte, one from U+0080 to U+00FF two\<close>
  "utf8_length s = sum_list (map (\<lambda>ch. if (of_char ch :: nat) < 128 then 1 else 2) s)"

definition name_too_long :: "string \<Rightarrow> bool" where
  "name_too_long f = (NAME_MAX < utf8_length f)"

fun existsSync :: "filesystem \<Rightarrow> path \<Rightarrow> bool" where
  "existsSync fs (d, f) =
     (case fs d of
        Directory es \<Rightarrow> \<not> name_too_long f \<and> map_of es f \<noteq> None
      | _ \<Rightarrow> False)"

fun readFileSync :: "filesystem \<Rightarrow> path \<Rightarrow> io_error + string" where
  "readFileSync fs (d, f) =
     (case fs d of
        Missing \<Rightarrow> Inl ENOENT
      | NotDirectory \<Rightarrow> Inl ENOTDIR
      | Directory es \<Rightarrow>
          if name_too_long f then Inl ENAMETOOLONG
          else (case map_of es f of
                  None \<Rightarrow> Inl ENOENT
                | Some Folder \<Rightarrow> Inl EISDIR
                | Some (File text) \<Rightarrow> Inr text))"

fun writeFileSync :: "filesystem \<Rightarrow> path \<Rightarrow> string \<Rightarrow> io_error + filesystem" where
  \<comment> \<open>an existing file keeps its place in the directory, a new one is listed last\<close>
  "writeFileSync fs (d, f) text =
     (case fs d of
        Missing \<Rightarrow> Inl ENOENT
      | NotDirectory \<Rightarrow> Inl ENOTDIR
      | Directory es \<Rightarrow>
          if name_too_long f then Inl ENAMETOOLONG
          else (case map_of es f of
                  Some Folder \<Rightarrow> Inl EISDIR
                | _ \<Rightarrow> Inr (fs(d := Directory (AList.update f (File text) es)))))"

definition applyReplacements :: "string \<Rightarrow> (string \<times> string) list \<Rightarrow> string" where
  \<comment> \<open>the list is \<open>Object.entries(replacements)\<close>\<close>
  "applyReplacements content replacements =
     fold (\<lambda>(search, replace) result. replaceAll result search replace) replacements content"

definition copyFromTemplate ::
    "filesystem \<Rightarrow> path \<Rightarrow> path \<Rightarrow> (string \<times> string) list \<Rightarrow> io_error + filesystem" where
  "copyFromTemplate fs templatePath newPath replacements =
     (case readFileSync fs templatePath of
        Inl e \<Rightarrow> Inl e
      | Inr content \<Rightarrow> writeFileSync fs newPath (applyReplacements content replacements))"

definition instanceExists :: "filesystem \<Rightarrow> string \<Rightarrow> bool" where
  "instanceExists fs mcpName =
     list_ex (\<lambda>file. existsSync fs (dir file, newName file mcpName)) FILES"

definition instance_rx :: rx where
  \<comment> \<open>\<open>/^(.+)\.externalCredential-meta\.xml$/\<close>\<close>
  "instance_rx = Seq Bol (Seq (Grp (Plus Dot)) (Seq (Lit ''.externalCredential-meta.xml'') Eol))"

definition set_add :: "'a \<Rightarrow> 'a list \<Rightarrow> 'a list" where
  \<comment> \<open>\<open>Set.prototype.add\<close>, the set kept as the list of its elements in insertion order\<close>
  "set_add x xs = (if x \<in> set xs then xs else xs @ [x])"

fun scan_entries :: "directory \<Rightarrow> string list \<Rightarrow> string list" where
  "scan_entries [] names = names"
| "scan_entries ((name, n) # entries) names =
     (case n of
        Folder \<Rightarrow> scan_entries entries names
      | File _ \<Rightarrow>
          (case rx_group1 instance_rx name of
             Some (Some m1) \<Rightarrow>
               if m1 \<noteq> TEMPLATE_NAME then scan_entries entries (set_add m1 names)
               else scan_entries entries names
           | _ \<Rightarrow> scan_entries entries names))"

definition getExistingInstances :: "filesystem \<Rightarrow> io_error + string list" where
  "getExistingInstances fs =
     (case fs ''externalCredentials'' of
        Missing \<Rightarrow> Inr []
      | NotDirectory \<Rightarrow> Inl ENOTDIR
      | Directory entries \<Rightarrow> Inr (sort (scan_entries entries [])))"

section \<open>The wizard\<close>

text \<open>
  A run of the wizard reads the lines typed on standard input, one for each question, and
  writes to the console. The run is a function of the file system and of the list of input
  lines. What it prints through \<open>log\<close> and what it asks through \<open>prompt\<close> is recorded as a
  list of events (colour codes and glyphs left out); the lines that \<open>console.log\<close> prints
  directly are banner and summary text and are not recorded. When the input lines run out
  at a question, the question stays unanswered and the run goes no further.
\<close>

datatype question =
    PressEnter          \<comment> \<open>\<open>Press Enter to continue or Ctrl+C to cancel...\<close>\<close>
  | Ask string          \<comment> \<open>the prompt of a variable with its suffix, followed by \<open>: \<close>\<close>
  | ApplyChanges        \<comment> \<open>\<open>Apply these changes? (y/n): \<close>\<close>
  | Overwrite string    \<comment> \<open>\<open>Metadata for '<name>' already exists. Overwrite? (y/n): \<close>\<close>

datatype event =
    Header string | Success string | Error string | Warning string | Info string
  | Question question
  | Failure io_error    \<comment> \<open>\<open>log.error(err.message)\<close> for the error caught at the end of
                            \<open>main\<close>; the event keeps the error, the text is Node's\<close>

datatype status = Exit nat | AwaitingInput

record result =
  status :: status
  console :: "event list"
  files :: filesystem

definition ToString :: "string option \<Rightarrow> string" where
  \<comment> \<open>a property of \<open>values\<close> put into a template literal or handed to \<open>replaceAll\<close>\<close>
  "ToString v = (case v of None \<Rightarrow> ''undefined'' | Some s \<Rightarrow> s)"

definition awaiting :: "event list \<Rightarrow> filesystem \<Rightarrow> result" where
  "awaiting out fs = \<lparr> status = AwaitingInput, console = out, files = fs \<rparr>"

definition failed :: "io_error \<Rightarrow> event list \<Rightarrow> filesystem \<Rightarrow> result" where
  \<comment> \<open>the handler of \<open>main().catch\<close>\<close>
  "failed e out fs = \<lparr> status = Exit 1, console = out @ [Failure e], files = fs \<rparr>"

definition cancelled :: "event list \<Rightarrow> filesystem \<Rightarrow> result" where
  "cancelled out fs =
     \<lparr> status = Exit 0, console = out @ [Warning ''Setup cancelled. No changes were made.''],
       files = fs \<rparr>"

fun promptWithValidation ::
    "variable \<Rightarrow> event list \<Rightarrow> string list \<Rightarrow> event list + (string \<times> event list \<times> string list)" where
  "promptWithValidation v out [] =
     Inl (out @ [Question (Ask (prompt_text v
                                 @ (if optional v then '' (press Enter to skip)'' else [])
                                 @ '': ''))])"
| "promptWithValidation v out (answer # ins) =
     (let out' = out @ [Question (Ask (prompt_text v
                                        @ (if optional v then '' (press Enter to skip)'' else [])
                                        @ '': ''))]
      in if validate v answer then Inr (answer, out', ins)
         else promptWithValidation v (out' @ [Error (error_text v)]) ins)"

fun collectValues ::
    "variable list \<Rightarrow> (string \<rightharpoonup> string) \<Rightarrow> event list \<Rightarrow> string list
     \<Rightarrow> event list + ((string \<rightharpoonup> string) \<times> event list \<times> string list)" where
  "collectValues [] vals out ins = Inr (vals, out, ins)"
| "collectValues (v # vs) vals out ins =
     (case promptWithValidation v out ins of
        Inl out' \<Rightarrow> Inl out'
      | Inr (answer, out', ins') \<Rightarrow> collectValues vs (vals(key v \<mapsto> answer)) out' ins')"

definition namespacePrefix :: "(string \<rightharpoonup> string) \<Rightarrow> string" where
  "namespacePrefix vals =
     (case vals ''NAMESPACE'' of
        None \<Rightarrow> []
      | Some ns \<Rightarrow> if ns \<noteq> [] then ns @ ''__'' else [])"

definition buildReplacements :: "(string \<rightharpoonup> string) \<Rightarrow> (string \<times> string) list" where
  "buildReplacements vals =
     [(''MCP_NAME'', ToString (vals ''MCP_NAME'')),
      (''MCP_SERVER_URL'', ToString (vals ''MCP_SERVER_URL'')),
      (''AUTH_PROVIDER_URL'', ToString (vals ''AUTH_PROVIDER_URL'')),
      (''NAMESPACE__'', namespacePrefix vals)]"

fun applyChanges ::
    "file_rule list \<Rightarrow> string \<Rightarrow> (string \<times> string) list \<Rightarrow> filesystem \<Rightarrow> event list
     \<Rightarrow> (io_error \<times> filesystem \<times> event list) + (filesystem \<times> event list)" where
  "applyChanges [] name replacements fs out = Inr (fs, out)"
| "applyChanges (file # rules) name replacements fs out =
     (if \<not> existsSync fs (dir file, oldName file) then
        applyChanges rules name replacements fs
          (out @ [Error (''Template not found: '' @ oldName file)])
      else
        case copyFromTemplate fs (dir file, oldName file) (dir file, newName file name)
               replacements of
          Inl e \<Rightarrow> Inl (e, fs, out)
        | Inr fs' \<Rightarrow>
            applyChanges rules name replacements fs'
              (out @ [Success (''Created: '' @ newName file name)]))"

definition main_apply :: "(string \<rightharpoonup> string) \<Rightarrow> filesystem \<Rightarrow> event list \<Rightarrow> result" where
  \<comment> \<open>\<open>main\<close> from \<open>Step 3: Applying Changes\<close> to its end, where the process
      ends with status 0\<close>
  "main_apply vals fs out =
     (case applyChanges FILES (ToString (vals ''MCP_NAME'')) (buildReplacements vals) fs
             (out @ [Header ''Step 3: Applying Changes'']) of
        Inl (e, fs', out') \<Rightarrow> failed e out' fs'
      | Inr (fs', out') \<Rightarrow>
          \<lparr> status = Exit 0,
            console = out' @ [Header ''Setup Complete!'', Success ''Happy coding!''],
            files = fs' \<rparr>)"

definition main_overwrite ::
    "(string \<rightharpoonup> string) \<Rightarrow> filesystem \<Rightarrow> event list \<Rightarrow> string list \<Rightarrow> result" where
  \<comment> \<open>\<open>main\<close> from the check for an existing instance\<close>
  "main_overwrite vals fs out ins =
     (if instanceExists fs (ToString (vals ''MCP_NAME'')) then
        (let out' = out @ [Question (Overwrite (ToString (vals ''MCP_NAME'')))]
         in case ins of
              [] \<Rightarrow> awaiting out' fs
            | overwrite # _ \<Rightarrow>
                if toLowerCase overwrite \<noteq> ''y'' then cancelled out' fs
                else main_apply vals fs out')
      else main_apply vals fs out)"

definition main_review ::
    "(string \<rightharpoonup> string) \<Rightarrow> filesystem \<Rightarrow> event list \<Rightarrow> string list \<Rightarrow> result" where
  \<comment> \<open>\<open>main\<close> from \<open>Step 2: Review Configuration\<close>\<close>
  "main_review vals fs out ins =
     (let out' = out @ [Header ''Step 2: Review Configuration'', Question ApplyChanges]
      in case ins of
           [] \<Rightarrow> awaiting out' fs
         | confirm # ins' \<Rightarrow>
             if toLowerCase confirm \<noteq> ''y'' then cancelled out' fs
             else main_overwrite vals fs out' ins')"

definition main_gather ::
    "filesystem \<Rightarrow> string list \<Rightarrow> result + ((string \<rightharpoonup> string) \<times> event list \<times> string list)" where
  \<comment> \<open>\<open>main\<close> up to the end of \<open>Step 1: Configuration Values\<close>: the run ends here
      (\<open>Inl\<close>), or the values are collected (\<open>Inr\<close>, with the output so far and the
      input lines not yet read)\<close>
  "main_gather fs ins =
     (let out0 = [Header ''MCP Metadata Setup Wizard'', Question PressEnter]
      in case ins of
           [] \<Rightarrow> Inl (awaiting out0 fs)
         | _ # ins1 \<Rightarrow>
             (let out1 = out0 @ [Header ''Step 1: Configuration Values'']
              in case getExistingInstances fs of
                   Inl e \<Rightarrow> Inl (failed e out1 fs)
                 | Inr existing \<Rightarrow>
                     (let out2 = out1 @ (if length existing > 0
                                         then [Info (''Existing MCP instances: ''
                                                     @ join_with '', '' existing)]
                                         else [])
                      in case collectValues VARIABLES Map.empty out2 ins1 of
                           Inl out3 \<Rightarrow> Inl (awaiting out3 fs)
                         | Inr collected \<Rightarrow> Inr collected)))"

definition main :: "filesystem \<Rightarrow> string list \<Rightarrow> result" where
  "main fs ins =
     (case main_gather fs ins of
        Inl r \<Rightarrow> r
      | Inr (vals, out, ins') \<Rightarrow> main_review vals fs out ins')"

section \<open>Notions of the specification\<close>

definition is_letter :: "char \<Rightarrow> bool" where
  "is_letter ch = ((CHR ''a'' \<le> ch \<and> ch \<le> CHR ''z'') \<or> (CHR ''A'' \<le> ch \<and> ch \<le> CHR ''Z''))"

definition is_digit :: "char \<Rightarrow> bool" where
  "is_digit ch = (CHR ''0'' \<le> ch \<and> ch \<le> CHR ''9'')"

definition identifier_style :: "string \<Rightarrow> bool" where
  \<comment> \<open>a letter, then letters, digits and underscores only\<close>
  "identifier_style s =
     (case s of
        [] \<Rightarrow> False
      | ch # rest \<Rightarrow>
          is_letter ch \<and> list_all (\<lambda>x. is_letter x \<or> is_digit x \<or> x = CHR ''_'') rest)"

definition url_style :: "string \<Rightarrow> bool" where
  \<comment> \<open>\<open>http://\<close> or \<open>https://\<close>, then at least one character\<close>
  "url_style s =
     ((take 7 s = ''http://'' \<and> drop 7 s \<noteq> []) \<or> (take 8 s = ''https://'' \<and> drop 8 s \<noteq> []))"

definition url_style_line :: "string \<Rightarrow> bool" where
  \<comment> \<open>\<open>http://\<close> or \<open>https://\<close>, then a character that is not a line terminator\<close>
  "url_style_line s =
     ((take 7 s = ''http://'' \<and> (case drop 7 s of [] \<Rightarrow> False | ch # _ \<Rightarrow> \<not> is_line_terminator ch))
      \<or> (take 8 s = ''https://'' \<and> (case drop 8 s of [] \<Rightarrow> False | ch # _ \<Rightarrow> \<not> is_line_terminator ch)))"


definition instance_file_name :: "string \<Rightarrow> string \<Rightarrow> bool" where
  \<comment> \<open>\<open>f\<close> is \<open><name>.externalCredential-meta.xml\<close> for the name \<open>n\<close>: a non-empty
      name without line terminators\<close>
  "instance_file_name n f =
     (n \<noteq> [] \<and> list_all (\<lambda>ch. \<not> is_line_terminator ch) n
      \<and> f = n @ ''.externalCredential-meta.xml'')"

definition example_directory :: directory where
  "example_directory =
     [(''foo.externalCredential-meta.xml'', File ''<label>foo</label>''),
      (''bar.externalCredential-meta.xml'', File ''<label>bar</label>''),
      (''template.externalCredential-meta.xml'', File ''<label>MCP_NAME</label>'')]"

definition example_fs :: filesystem where
  "example_fs = (\<lambda>d. Missing)(''externalCredentials'' := Directory example_directory)"

definition report :: "filesystem \<Rightarrow> string \<Rightarrow> file_rule \<Rightarrow> event" where
  \<comment> \<open>what the wizard reports for a rule: created, or template not found\<close>
  "report fs name file =
     (if existsSync fs (dir file, oldName file) then Success (''Created: '' @ newName file name)
      else Error (''Template not found: '' @ oldName file))"

definition io_safe :: "filesystem \<Rightarrow> string \<Rightarrow> file_rule \<Rightarrow> bool" where
  \<comment> \<open>when the template path of the rule exists, it is a regular file, and the
      destination path is not a folder and its name not too long, so that reading the one
      and writing the other cannot fail\<close>
  "io_safe fs name file =
     (existsSync fs (dir file, oldName file) \<longrightarrow>
      (case fs (dir file) of
         Directory es \<Rightarrow>
           (\<exists>cont. map_of es (oldName file) = Some (File cont)) \<and>
           map_of es (newName file name) \<noteq> Some Folder \<and>
           \<not> name_too_long (newName file name)
       | _ \<Rightarrow> True))"

definition render_error ::
    "filesystem \<Rightarrow> string \<Rightarrow> (string \<times> string) list \<Rightarrow> file_rule \<Rightarrow> io_error option" where
  \<comment> \<open>the error with which the renderer fails for a rule; \<open>None\<close> when the template is
      missing, so that the renderer is not invoked, and when the renderer returns\<close>
  "render_error fs name replacements file =
     (if existsSync fs (dir file, oldName file) then
        (case copyFromTemplate fs (dir file, oldName file) (dir file, newName file name)
                replacements of
           Inl e \<Rightarrow> Some e
         | Inr _ \<Rightarrow> None)
      else None)"


fun loop_completed ::
    "filesystem \<Rightarrow> string \<Rightarrow> (string \<times> string) list \<Rightarrow> file_rule list \<Rightarrow> file_rule list" where
  \<comment> \<open>the rules that are dealt with before the loop over the rules stops, judged on the
      file system at the start of the loop\<close>
  "loop_completed fs name replacements [] = []"
| "loop_completed fs name replacements (file # rules) =
     (case render_error fs name replacements file of
        None \<Rightarrow> file # loop_completed fs name replacements rules
      | Some e \<Rightarrow> [])"

fun loop_failure ::
    "filesystem \<Rightarrow> string \<Rightarrow> (string \<times> string) list \<Rightarrow> file_rule list \<Rightarrow> io_error option" where
  \<comment> \<open>the error of the first rule for which the renderer fails, \<open>None\<close> when it fails
      for no rule\<close>
  "loop_failure fs name replacements [] = None"
| "loop_failure fs name replacements (file # rules) =
     (case render_error fs name replacements file of
        None \<Rightarrow> loop_failure fs name replacements rules
      | Some e \<Rightarrow> Some e)"


section \<open>Properties of the matcher\<close>

declare rx_match.simps(8) [simp del]

lemma concat_map_nonempty: "concat (map f xs) \<noteq> [] \<longleftrightarrow> (\<exists>x\<in>set xs. f x \<noteq> [])"
  by (induction xs) auto

lemma rx_exec_from_Bol: "b \<noteq> [] \<Longrightarrow> rx_exec_from (Seq Bol p) b r = None"
  by (induction r arbitrary: b) auto

lemma rx_exec_Bol:
  "rx_exec (Seq Bol p) s = (case rx_match p ([], s, None) of st # _ \<Rightarrow> Some st | [] \<Rightarrow> None)"
  by (cases s) (auto simp: rx_exec_def rx_exec_from_Bol split: list.splits)

lemma rx_test_Bol: "rx_test (Seq Bol p) s \<longleftrightarrow> rx_match p ([], s, None) \<noteq> []"
  by (simp add: rx_test_def rx_exec_Bol split: list.splits)

lemma rx_match_Star_atom:
  assumes atom: "\<And>b y ys c. rx_match p (b, y # ys, c) = (if P y then [(b @ [y], ys, c)] else [])"
    and atom_Nil: "\<And>b c. rx_match p (b, [], c) = []"
  shows "set (rx_match (Star p) (b, r, c)) =
         {(b @ take k r, drop k r, c) | k. k \<le> length r \<and> (\<forall>x\<in>set (take k r). P x)}"
proof (induction r arbitrary: b)
  case Nil
  show ?case by (simp add: atom_Nil rx_match.simps(8))
next
  case (Cons y ys)
  let ?S = "\<lambda>b r. {(b @ take k r, drop k r, c) | k. k \<le> length r \<and> (\<forall>x\<in>set (take k r). P x)}"
  have unfold: "set (rx_match (Star p) (b, y # ys, c)) =
        (if P y then set (rx_match (Star p) (b @ [y], ys, c)) else {}) \<union> {(b, y # ys, c)}"
    by (subst rx_match.simps(8)) (simp add: atom)
  have split: "?S b (y # ys) = (if P y then ?S (b @ [y]) ys else {}) \<union> {(b, y # ys, c)}"
  proof (intro set_eqI iffI)
    fix st assume "st \<in> ?S b (y # ys)"
    then obtain k where k: "st = (b @ take k (y # ys), drop k (y # ys), c)"
      "k \<le> length (y # ys)" "\<forall>x\<in>set (take k (y # ys)). P x" by blast
    show "st \<in> (if P y then ?S (b @ [y]) ys else {}) \<union> {(b, y # ys, c)}"
    proof (cases k)
      case 0 with k show ?thesis by simp
    next
      case (Suc j)
      with k have "P y" "st = ((b @ [y]) @ take j ys, drop j ys, c)" "j \<le> length ys"
        "\<forall>x\<in>set (take j ys). P x" by simp_all
      then have "st \<in> ?S (b @ [y]) ys" by blast
      with \<open>P y\<close> show ?thesis by simp
    qed
  next
    fix st assume a: "st \<in> (if P y then ?S (b @ [y]) ys else {}) \<union> {(b, y # ys, c)}"
    show "st \<in> ?S b (y # ys)"
    proof (cases "st = (b, y # ys, c)")
      case True
      then have "st = (b @ take 0 (y # ys), drop 0 (y # ys), c) \<and> 0 \<le> length (y # ys)
                 \<and> (\<forall>x\<in>set (take 0 (y # ys)). P x)" by simp
      then show ?thesis by blast
    next
      case False
      with a have py: "P y" and "st \<in> ?S (b @ [y]) ys" by (simp_all split: if_splits)
      then obtain k where "st = ((b @ [y]) @ take k ys, drop k ys, c)" "k \<le> length ys"
          "\<forall>x\<in>set (take k ys). P x" by blast
      with py have "st = (b @ take (Suc k) (y # ys), drop (Suc k) (y # ys), c)
                 \<and> Suc k \<le> length (y # ys) \<and> (\<forall>x\<in>set (take (Suc k) (y # ys)). P x)" by simp
      then show ?thesis by blast
    qed
  qed
  show ?case unfolding unfold split Cons.IH ..
qed

lemma rx_match_Star_Cls:
  "set (rx_match (Star (Cls rs)) (b, r, c)) =
   {(b @ take k r, drop k r, c) | k. k \<le> length r \<and> (\<forall>x\<in>set (take k r). in_class rs x)}"
  by (rule rx_match_Star_atom) simp_all

lemma rx_match_Star_Dot:
  "set (rx_match (Star Dot) (b, r, c)) =
   {(b @ take k r, drop k r, c) | k. k \<le> length r \<and> (\<forall>x\<in>set (take k r). \<not> is_line_terminator x)}"
  by (rule rx_match_Star_atom) simp_all

lemma rx_match_Star_nonempty: "rx_match (Star p) st \<noteq> []"
  by (cases st) (simp add: rx_match.simps(8))

section \<open>Validation\<close>

lemma in_class_letter: "in_class letter_ranges ch = is_letter ch"
  by (simp add: in_class_def letter_ranges_def is_letter_def)

lemma in_class_word: "in_class word_ranges ch = (is_letter ch \<or> is_digit ch \<or> ch = CHR ''_'')"
  by (auto simp: in_class_def word_ranges_def is_letter_def is_digit_def)

lemma all_word_iff:
  "(\<exists>k\<le>length ys. (\<forall>x\<in>set (take k ys). P x) \<and> drop k ys = []) \<longleftrightarrow> (\<forall>x\<in>set ys. P x)"
proof
  assume "\<exists>k\<le>length ys. (\<forall>x\<in>set (take k ys). P x) \<and> drop k ys = []"
  then obtain k where "k \<le> length ys" "\<forall>x\<in>set (take k ys). P x" "drop k ys = []" by blast
  then show "\<forall>x\<in>set ys. P x" by simp
next
  assume "\<forall>x\<in>set ys. P x"
  then have "length ys \<le> length ys \<and> (\<forall>x\<in>set (take (length ys) ys). P x) \<and> drop (length ys) ys = []"
    by simp
  then show "\<exists>k\<le>length ys. (\<forall>x\<in>set (take k ys). P x) \<and> drop k ys = []" by blast
qed

lemma rx_test_identifier: "rx_test identifier_rx s = identifier_style s"
proof (cases s)
  case Nil
  then show ?thesis by (simp add: identifier_rx_def rx_test_Bol identifier_style_def)
next
  case (Cons y ys)
  have "rx_test identifier_rx s \<longleftrightarrow>
        in_class letter_ranges y \<and>
        (\<exists>k\<le>length ys. (\<forall>x\<in>set (take k ys). in_class word_ranges x) \<and> drop k ys = [])"
    by (auto simp: Cons identifier_rx_def rx_test_Bol concat_map_nonempty rx_match_Star_Cls)
  then have "rx_test identifier_rx s \<longleftrightarrow>
        in_class letter_ranges y \<and> (\<forall>x\<in>set ys. in_class word_ranges x)"
    by (simp only: all_word_iff)
  then show ?thesis
    by (simp add: Cons identifier_style_def in_class_letter in_class_word list_all_iff)
qed

lemma take_eq_iff_append: "take (length w) r = w \<longleftrightarrow> (\<exists>t. r = w @ t)"
  by (metis append_eq_conv_conj append_take_drop_id)

lemma set_rx_match_Lit: "set (rx_match (Lit w) (b, r, c)) = {(b @ w, t, c) | t. r = w @ t}"
  by (auto simp: take_eq_iff_append)

lemma set_rx_match_Opt: "set (rx_match (Opt p) st) = set (rx_match p st) \<union> {st}"
  by (cases st) auto

lemma rx_match_Seq_nonempty:
  "rx_match (Seq p q) st \<noteq> [] \<longleftrightarrow> (\<exists>st'\<in>set (rx_match p st). rx_match q st' \<noteq> [])"
  by (cases st) (simp add: concat_map_nonempty)

lemma rx_match_Plus_Dot_nonempty:
  "rx_match (Plus Dot) (b, r, c) \<noteq> [] \<longleftrightarrow> (\<exists>ch t. r = ch # t \<and> \<not> is_line_terminator ch)"
  by (cases r) (auto simp: concat_map_nonempty rx_match_Star_nonempty)

lemma url_style_line_iff:
  "url_style_line s \<longleftrightarrow>
   (\<exists>ch t. \<not> is_line_terminator ch \<and> (s = ''http://'' @ ch # t \<or> s = ''https://'' @ ch # t))"
proof -
  have a: "take 7 s = ''http://'' \<longleftrightarrow> (\<exists>t. s = ''http://'' @ t)"
    using take_eq_iff_append [of "''http://''" s] by (simp add: eval_nat_numeral)
  have b: "take 8 s = ''https://'' \<longleftrightarrow> (\<exists>t. s = ''https://'' @ t)"
    using take_eq_iff_append [of "''https://''" s] by (simp add: eval_nat_numeral)
  show ?thesis
    unfolding url_style_line_def a b by (auto split: list.splits)
qed

lemma rx_match_Seq_Lit_nonempty:
  "rx_match (Seq (Lit w) q) (b, r, c) \<noteq> [] \<longleftrightarrow> (\<exists>t. r = w @ t \<and> rx_match q (b @ w, t, c) \<noteq> [])"
  unfolding rx_match_Seq_nonempty set_rx_match_Lit by blast

lemma rx_match_Seq_Opt_nonempty:
  "rx_match (Seq (Opt p) q) st \<noteq> [] \<longleftrightarrow> rx_match (Seq p q) st \<noteq> [] \<or> rx_match q st \<noteq> []"
  unfolding rx_match_Seq_nonempty set_rx_match_Opt by blast

lemma rx_test_url: "rx_test url_rx s = url_style_line s"
proof -
  have "rx_test url_rx s \<longleftrightarrow>
        (\<exists>t. s = ''http'' @ t \<and>
             ((\<exists>t'. t = ''s'' @ t' \<and> (\<exists>u. t' = ''://'' @ u \<and> (\<exists>ch v. u = ch # v \<and> \<not> is_line_terminator ch)))
              \<or> (\<exists>u. t = ''://'' @ u \<and> (\<exists>ch v. u = ch # v \<and> \<not> is_line_terminator ch))))"
    unfolding url_rx_def rx_test_Bol rx_match_Seq_Lit_nonempty rx_match_Seq_Opt_nonempty
      rx_match_Plus_Dot_nonempty ..
  also have "\<dots> \<longleftrightarrow>
        (\<exists>ch v. \<not> is_line_terminator ch \<and> (s = ''http'' @ ''s'' @ ''://'' @ ch # v \<or> s = ''http'' @ ''://'' @ ch # v))"
    by blast
  also have "\<dots> \<longleftrightarrow> url_style_line s"
    unfolding url_style_line_iff by (simp del: append_eq_append_conv2) blast
  finally show ?thesis .
qed


lemma url_style_line_no_terminator:
  assumes "\<forall>ch\<in>set s. \<not> is_line_terminator ch"
  shows "url_style_line s = url_style s"
proof -
  have "\<And>n. (case drop n s of [] \<Rightarrow> False | ch # _ \<Rightarrow> \<not> is_line_terminator ch) = (drop n s \<noteq> [])"
  proof -
    fix n
    show "(case drop n s of [] \<Rightarrow> False | ch # _ \<Rightarrow> \<not> is_line_terminator ch) = (drop n s \<noteq> [])"
    proof (cases "drop n s")
      case Nil then show ?thesis by simp
    next
      case (Cons ch t)
      then have "ch \<in> set (drop n s)" by simp
      then have "ch \<in> set s" by (rule in_set_dropD)
      with assms Cons show ?thesis by simp
    qed
  qed
  then show ?thesis by (simp only: url_style_line_def url_style_def)
qed

text \<open>
  C4. The validation predicate of \<open>MCP_NAME\<close> accepts a string if and only if it is a letter
  followed by letters, digits and underscores only (so the empty string is rejected); the
  predicate of \<open>NAMESPACE\<close> accepts the empty string and the strings of that form, and
  nothing else.
\<close>

theorem identifier_validation:
  "key (VARIABLES ! 0) = ''MCP_NAME'' \<and> key (VARIABLES ! 3) = ''NAMESPACE'' \<and>
   validate (VARIABLES ! 0) val = identifier_style val \<and>
   validate (VARIABLES ! 3) val = (val = [] \<or> identifier_style val)"
  by (simp add: VARIABLES_def rx_test_identifier)

theorem identifier_validation_witness:
  "validate (VARIABLES ! 0) ''weather_api'' \<and> \<not> validate (VARIABLES ! 0) ''3weather'' \<and>
   \<not> validate (VARIABLES ! 0) [] \<and> validate (VARIABLES ! 3) [] \<and>
   validate (VARIABLES ! 3) ''mycompany'' \<and> \<not> validate (VARIABLES ! 3) ''my-company''"
  using identifier_validation [of "''weather_api''"] identifier_validation [of "''3weather''"]
    identifier_validation [of "[]"] identifier_validation [of "''mycompany''"]
    identifier_validation [of "''my-company''"]
  by (simp add: identifier_style_def is_letter_def is_digit_def)

text \<open>
  C5, as amended. The validation predicate of \<open>MCP_SERVER_URL\<close> and of
  \<open>AUTH_PROVIDER_URL\<close> accepts a string if and only if it starts with \<open>http://\<close> or
  \<open>https://\<close> and the character right after that prefix exists and is not a line
  terminator. For a string without line terminators this is: at least one character
  follows the prefix.
\<close>

theorem url_validation:
  "key (VARIABLES ! 1) = ''MCP_SERVER_URL'' \<and> key (VARIABLES ! 2) = ''AUTH_PROVIDER_URL'' \<and>
   validate (VARIABLES ! 1) val = url_style_line val \<and>
   validate (VARIABLES ! 2) val = url_style_line val \<and>
   ((\<forall>ch\<in>set val. \<not> is_line_terminator ch) \<longrightarrow>
      validate (VARIABLES ! 1) val = url_style val \<and> validate (VARIABLES ! 2) val = url_style val)"
  using url_style_line_no_terminator [of val] by (simp add: VARIABLES_def rx_test_url)

theorem url_validation_witness:
  "list_all (\<lambda>ch. \<not> is_line_terminator ch) ''https://mcp.example.com/api'' \<and>
   validate (VARIABLES ! 1) ''https://mcp.example.com/api'' \<and>
   validate (VARIABLES ! 2) ''https://mcp.example.com/api'' \<and>
   \<not> validate (VARIABLES ! 1) ''ftp://x'' \<and> \<not> validate (VARIABLES ! 1) ''https://''"
  using url_validation [of "''https://mcp.example.com/api''"] url_validation [of "''ftp://x''"]
    url_validation [of "''https://''"]
  by (simp add: url_style_def url_style_line_def is_line_terminator_def)

text \<open>
  C5, as stated, fails on \<open>http://\<close> followed by a line feed: a character follows the
  prefix, and the predicate rejects the string.
\<close>

theorem url_validation_counterexample:
  "\<not> (validate (VARIABLES ! 1) (''http://'' @ [CHR 0x0A]) \<longleftrightarrow> url_style (''http://'' @ [CHR 0x0A]))"
  by (simp add: VARIABLES_def rx_test_url url_style_def url_style_line_def is_line_terminator_def)

section \<open>The scanner\<close>

declare rx_match.simps [simp del]

lemma set_rx_match_Plus_Dot:
  "set (rx_match (Plus Dot) (b, r, c)) =
   {(b @ m, t, c) | m t. m \<noteq> [] \<and> r = m @ t \<and> (\<forall>x\<in>set m. \<not> is_line_terminator x)}"
proof (cases r)
  case Nil
  then show ?thesis by (simp add: rx_match.simps)
next
  case (Cons y ys)
  have plus: "set (rx_match (Plus Dot) (b, r, c)) =
      (if is_line_terminator y then {} else set (rx_match (Star Dot) (b @ [y], ys, c)))"
    by (simp add: Cons rx_match.simps(4,6))
  show ?thesis
  proof (intro set_eqI iffI)
    fix st assume "st \<in> set (rx_match (Plus Dot) (b, r, c))"
    then obtain k where k: "\<not> is_line_terminator y" "k \<le> length ys"
        "\<forall>x\<in>set (take k ys). \<not> is_line_terminator x" "st = ((b @ [y]) @ take k ys, drop k ys, c)"
      unfolding plus rx_match_Star_Dot by (auto split: if_splits)
    then have "st = (b @ (y # take k ys), drop k ys, c) \<and> y # take k ys \<noteq> []
        \<and> r = (y # take k ys) @ drop k ys \<and> (\<forall>x\<in>set (y # take k ys). \<not> is_line_terminator x)"
      by (simp add: Cons)
    then show "st \<in> {(b @ m, t, c) | m t. m \<noteq> [] \<and> r = m @ t \<and> (\<forall>x\<in>set m. \<not> is_line_terminator x)}"
      by blast
  next
    fix st assume "st \<in> {(b @ m, t, c) | m t. m \<noteq> [] \<and> r = m @ t \<and> (\<forall>x\<in>set m. \<not> is_line_terminator x)}"
    then obtain m t where m: "st = (b @ m, t, c)" "m \<noteq> []" "r = m @ t"
        "\<forall>x\<in>set m. \<not> is_line_terminator x" by blast
    then obtain m' where m': "m = y # m'" using Cons by (cases m) auto
    with m Cons have ys: "ys = m' @ t" by simp
    have "st = ((b @ [y]) @ take (length m') ys, drop (length m') ys, c)
          \<and> length m' \<le> length ys \<and> (\<forall>x\<in>set (take (length m') ys). \<not> is_line_terminator x)"
      using m m' ys by simp
    then have "st \<in> set (rx_match (Star Dot) (b @ [y], ys, c))"
      unfolding rx_match_Star_Dot by blast
    moreover have "\<not> is_line_terminator y" using m m' by simp
    ultimately show "st \<in> set (rx_match (Plus Dot) (b, r, c))"
      unfolding plus by simp
  qed
qed

lemma rx_match_Lit_Eol:
  "rx_match (Seq (Lit w) Eol) (b, r, c) = (if r = w then [(b @ w, [], c)] else [])"
proof (cases "\<exists>t. r = w @ t")
  case True
  then obtain t where t: "r = w @ t" ..
  show ?thesis unfolding t by (simp add: rx_match.simps(2,3,6))
next
  case False
  then have "r \<noteq> w" "take (length w) r \<noteq> w"
    by (auto simp: take_eq_iff_append)
  then show ?thesis by (simp add: rx_match.simps(3,6))
qed

lemma set_rx_match_Grp_Plus_Dot:
  "set (rx_match (Grp (Plus Dot)) ([], f, None)) =
   {(m, t, Some m) | m t. m \<noteq> [] \<and> f = m @ t \<and> (\<forall>x\<in>set m. \<not> is_line_terminator x)}"
proof -
  have "set (rx_match (Grp (Plus Dot)) ([], f, None)) =
        (\<lambda>(b', r', c'). (b', r', Some b')) ` set (rx_match (Plus Dot) ([], f, None))"
    by (simp add: rx_match.simps(9))
  also have "\<dots> = (\<lambda>(b', r', c'). (b', r', Some b')) `
        {(m, t, None :: string option) | m t.
           m \<noteq> [] \<and> f = m @ t \<and> (\<forall>x\<in>set m. \<not> is_line_terminator x)}"
    unfolding set_rx_match_Plus_Dot append_Nil by (rule refl)
  also have "\<dots> = {(m, t, Some m) | m t. m \<noteq> [] \<and> f = m @ t \<and> (\<forall>x\<in>set m. \<not> is_line_terminator x)}"
    by (rule set_eqI) (simp add: image_iff, blast)
  finally show ?thesis .
qed

lemma set_rx_match_instance_body:
  "set (rx_match (Seq (Grp (Plus Dot)) (Seq (Lit w) Eol)) ([], f, None)) =
   {(n @ w, [], Some n) | n. n \<noteq> [] \<and> f = n @ w \<and> (\<forall>x\<in>set n. \<not> is_line_terminator x)}"
proof -
  have "set (rx_match (Seq (Grp (Plus Dot)) (Seq (Lit w) Eol)) ([], f, None)) =
        (\<Union>st\<in>set (rx_match (Grp (Plus Dot)) ([], f, None)). set (rx_match (Seq (Lit w) Eol) st))"
    by (simp add: rx_match.simps(6) [of "Grp (Plus Dot)"])
  also have "\<dots> = (\<Union>st\<in>{(m, t, Some m) | m t. m \<noteq> [] \<and> f = m @ t \<and> (\<forall>x\<in>set m. \<not> is_line_terminator x)}.
                     set (rx_match (Seq (Lit w) Eol) st))"
    unfolding set_rx_match_Grp_Plus_Dot by (rule refl)
  also have "\<dots> = {(n @ w, [], Some n) | n. n \<noteq> [] \<and> f = n @ w \<and> (\<forall>x\<in>set n. \<not> is_line_terminator x)}"
  proof (intro set_eqI iffI)
    fix st :: mstate
    assume "st \<in> (\<Union>st\<in>{(m, t, Some m) | m t. m \<noteq> [] \<and> f = m @ t \<and> (\<forall>x\<in>set m. \<not> is_line_terminator x)}.
                     set (rx_match (Seq (Lit w) Eol) st))"
    then obtain m t where mt: "m \<noteq> []" "f = m @ t" "\<forall>x\<in>set m. \<not> is_line_terminator x"
        "st \<in> set (rx_match (Seq (Lit w) Eol) (m, t, Some m))" by blast
    then have "t = w \<and> st = (m @ w, [], Some m)"
      by (simp add: rx_match_Lit_Eol split: if_splits)
    with mt show "st \<in> {(n @ w, [], Some n) | n. n \<noteq> [] \<and> f = n @ w \<and> (\<forall>x\<in>set n. \<not> is_line_terminator x)}"
      by blast
  next
    fix st :: mstate
    assume "st \<in> {(n @ w, [], Some n) | n. n \<noteq> [] \<and> f = n @ w \<and> (\<forall>x\<in>set n. \<not> is_line_terminator x)}"
    then obtain n where n: "st = (n @ w, [], Some n)" "n \<noteq> []" "f = n @ w"
        "\<forall>x\<in>set n. \<not> is_line_terminator x" by blast
    then have "st \<in> set (rx_match (Seq (Lit w) Eol) (n, w, Some n))"
      by (simp add: rx_match_Lit_Eol)
    moreover have "(n, w, Some n) \<in> {(m, t, Some m) | m t. m \<noteq> [] \<and> f = m @ t \<and> (\<forall>x\<in>set m. \<not> is_line_terminator x)}"
      using n by blast
    ultimately show "st \<in> (\<Union>st\<in>{(m, t, Some m) | m t. m \<noteq> [] \<and> f = m @ t \<and> (\<forall>x\<in>set m. \<not> is_line_terminator x)}.
                     set (rx_match (Seq (Lit w) Eol) st))"
      by (rule UN_I [rotated])
  qed
  finally show ?thesis .
qed

lemma rx_group1_name_suffix:
  "rx_group1 (Seq Bol (Seq (Grp (Plus Dot)) (Seq (Lit w) Eol))) f = Some c \<longleftrightarrow>
   (\<exists>n. c = Some n \<and> n \<noteq> [] \<and> f = n @ w \<and> (\<forall>x\<in>set n. \<not> is_line_terminator x))"
proof -
  define res where "res = rx_match (Seq (Grp (Plus Dot)) (Seq (Lit w) Eol)) ([], f, None)"
  define ok where "ok n \<longleftrightarrow> n \<noteq> [] \<and> f = n @ w \<and> (\<forall>x\<in>set n. \<not> is_line_terminator x)" for n
  define g where "g = rx_group1 (Seq Bol (Seq (Grp (Plus Dot)) (Seq (Lit w) Eol))) f"
  have set_res: "set res = {(n @ w, [], Some n) | n. ok n}"
    unfolding res_def ok_def by (rule set_rx_match_instance_body)
  have exec: "g = (case res of [] \<Rightarrow> None | (b, r, c) # _ \<Rightarrow> Some c)"
    unfolding g_def res_def rx_group1_def rx_exec_Bol
    by (cases "rx_match (Seq (Grp (Plus Dot)) (Seq (Lit w) Eol)) ([], f, None)") auto
  have uniq: "n' = n" if "ok n'" "ok n" for n n'
    using that unfolding ok_def by auto
  have "g = Some c \<longleftrightarrow> (\<exists>n. c = Some n \<and> ok n)"
  proof (cases res)
    case Nil
    with set_res have "\<And>n. \<not> ok n" by auto
    with Nil exec show ?thesis by simp
  next
    case (Cons st sts)
    with set_res obtain n where n: "st = (n @ w, [], Some n)" "ok n" by auto
    with Cons exec have "g = Some (Some n)" by simp
    with n(2) uniq show ?thesis by auto
  qed
  then show ?thesis unfolding g_def ok_def .
qed

lemma rx_group1_instance:
  "rx_group1 instance_rx f = Some c \<longleftrightarrow> (\<exists>n. c = Some n \<and> instance_file_name n f)"
  unfolding instance_rx_def instance_file_name_def list_all_iff rx_group1_name_suffix by blast

lemma set_add_set: "set (set_add x xs) = insert x (set xs)"
  by (auto simp: set_add_def)

lemma set_add_distinct: "distinct xs \<Longrightarrow> distinct (set_add x xs)"
  by (simp add: set_add_def)

lemma scan_entries_step:
  "scan_entries ((f, nd) # entries) names =
     scan_entries entries
       (case nd of Folder \<Rightarrow> names
        | File _ \<Rightarrow> (case rx_group1 instance_rx f of
                       Some (Some m1) \<Rightarrow> if m1 \<noteq> TEMPLATE_NAME then set_add m1 names else names
                     | _ \<Rightarrow> names))"
  by (simp split: node.splits option.splits)

lemma set_scan_entries:
  "set (scan_entries entries names) =
   set names \<union> {n. n \<noteq> TEMPLATE_NAME \<and> (\<exists>f text. (f, File text) \<in> set entries \<and> instance_file_name n f)}"
proof (induction entries arbitrary: names)
  case Nil
  show ?case by simp
next
  case (Cons e entries)
  obtain f nd where e: "e = (f, nd)" by (cases e)
  show ?case
  proof (cases nd)
    case Folder
    then show ?thesis unfolding e scan_entries_step Cons.IH by auto
  next
    case (File cont)
    show ?thesis
    proof (cases "rx_group1 instance_rx f")
      case None
      then have "\<And>n. \<not> instance_file_name n f"
        using rx_group1_instance [of f] by auto
      with None File show ?thesis unfolding e scan_entries_step Cons.IH by auto
    next
      case (Some c)
      then obtain n where n: "c = Some n" "instance_file_name n f"
        using rx_group1_instance [of f c] by auto
      have uniq: "\<And>n'. instance_file_name n' f \<longleftrightarrow> n' = n"
        using n(2) by (auto simp: instance_file_name_def)
      show ?thesis unfolding e scan_entries_step Cons.IH
        by (auto simp: Some n File uniq set_add_set)
    qed
  qed
qed

lemma distinct_scan_entries: "distinct names \<Longrightarrow> distinct (scan_entries entries names)"
proof (induction entries arbitrary: names)
  case Nil
  then show ?case by simp
next
  case (Cons e entries)
  obtain f nd where e: "e = (f, nd)" by (cases e)
  have "distinct (case nd of Folder \<Rightarrow> names
        | File _ \<Rightarrow> (case rx_group1 instance_rx f of
                       Some (Some m1) \<Rightarrow> if m1 \<noteq> TEMPLATE_NAME then set_add m1 names else names
                     | _ \<Rightarrow> names))"
    using Cons.prems by (simp add: set_add_distinct split: node.splits option.splits)
  then show ?case unfolding e scan_entries_step by (rule Cons.IH)
qed

lemma getExistingInstances_example: "getExistingInstances example_fs = Inr [''bar'', ''foo'']"
  by (simp add: getExistingInstances_def example_fs_def example_directory_def rx_group1_def
        instance_rx_def rx_exec_def rx_match.simps is_line_terminator_def set_add_def
        TEMPLATE_NAME_def less_eq_char_def)

text \<open>
  C6, as amended. When the path \<open>externalCredentials\<close> does not exist the scanner returns
  the empty list and no error. When it is a directory the scanner returns the names \<open>n\<close>,
  not empty, free of line terminators and other than \<open>template\<close>, for which the directory
  holds a regular file \<open>n.externalCredential-meta.xml\<close>, each name once, in ascending
  order. When the path exists and is not a directory the scan fails with \<open>ENOTDIR\<close>.
\<close>

theorem getExistingInstances_sorted_names:
  "(fs ''externalCredentials'' = Missing \<longrightarrow> getExistingInstances fs = Inr []) \<and>
   (fs ''externalCredentials'' = NotDirectory \<longrightarrow> getExistingInstances fs = Inl ENOTDIR) \<and>
   (fs ''externalCredentials'' = Directory entries \<longrightarrow>
      getExistingInstances fs =
        Inr (sorted_list_of_set
               {n. n \<noteq> ''template'' \<and> n \<noteq> [] \<and> list_all (\<lambda>ch. \<not> is_line_terminator ch) n \<and>
                   (\<exists>cont. (n @ ''.externalCredential-meta.xml'', File cont) \<in> set entries)}))"
proof (intro conjI impI)
  assume "fs ''externalCredentials'' = Missing"
  then show "getExistingInstances fs = Inr []" by (simp add: getExistingInstances_def)
next
  assume "fs ''externalCredentials'' = NotDirectory"
  then show "getExistingInstances fs = Inl ENOTDIR" by (simp add: getExistingInstances_def)
next
  assume dir: "fs ''externalCredentials'' = Directory entries"
  let ?names = "scan_entries entries []"
  have "set ?names =
        {n. n \<noteq> ''template'' \<and> n \<noteq> [] \<and> list_all (\<lambda>ch. \<not> is_line_terminator ch) n \<and>
            (\<exists>cont. (n @ ''.externalCredential-meta.xml'', File cont) \<in> set entries)}"
    unfolding set_scan_entries instance_file_name_def TEMPLATE_NAME_def by auto
  moreover have "distinct ?names" by (simp add: distinct_scan_entries)
  then have "sort ?names = sorted_list_of_set (set ?names)"
    by (simp add: sorted_list_of_set_sort_remdups distinct_remdups_id)
  ultimately show "getExistingInstances fs =
        Inr (sorted_list_of_set
               {n. n \<noteq> ''template'' \<and> n \<noteq> [] \<and> list_all (\<lambda>ch. \<not> is_line_terminator ch) n \<and>
                   (\<exists>cont. (n @ ''.externalCredential-meta.xml'', File cont) \<in> set entries)})"
    by (simp add: getExistingInstances_def dir)
qed

theorem getExistingInstances_sorted_names_witness:
  "getExistingInstances ((\<lambda>d. Missing) :: filesystem) = Inr [] \<and>
   getExistingInstances ((\<lambda>d. NotDirectory) :: filesystem) = Inl ENOTDIR \<and>
   getExistingInstances example_fs = Inr [''bar'', ''foo''] \<and>
   sorted_list_of_set
     {n. n \<noteq> ''template'' \<and> n \<noteq> [] \<and> list_all (\<lambda>ch. \<not> is_line_terminator ch) n \<and>
         (\<exists>cont. (n @ ''.externalCredential-meta.xml'', File cont) \<in> set example_directory)}
   = [''bar'', ''foo'']"
  using getExistingInstances_sorted_names [of "\<lambda>d. Missing" "[]"]
    getExistingInstances_sorted_names [of "\<lambda>d. NotDirectory" "[]"]
    getExistingInstances_sorted_names [of example_fs example_directory]
    getExistingInstances_example
  by (simp add: example_fs_def)

text \<open>
  C6, as stated, fails in three states. A directory whose only entry is the regular file
  \<open>a<LF>b.externalCredential-meta.xml\<close> (a line feed in the name) gives the empty list,
  and so does one whose only entry is the regular file \<open>.externalCredential-meta.xml\<close>
  (nothing before the suffix): the pattern \<open>(.+)\<close> matches neither name. A path
  \<open>externalCredentials\<close> that is taken by something other than a directory gives the
  error \<open>ENOTDIR\<close> and no list.
\<close>

theorem getExistingInstances_counterexample:
  "getExistingInstances
     ((\<lambda>d. Missing)(''externalCredentials'' := Directory
        [(''a'' @ [CHR 0x0A] @ ''b.externalCredential-meta.xml'', File [])])) = Inr [] \<and>
   getExistingInstances
     ((\<lambda>d. Missing)(''externalCredentials'' := Directory
        [(''.externalCredential-meta.xml'', File [])])) = Inr [] \<and>
   getExistingInstances ((\<lambda>d. Missing)(''externalCredentials'' := NotDirectory)) = Inl ENOTDIR"
  by (simp add: getExistingInstances_def rx_group1_def instance_rx_def rx_exec_def
        rx_match.simps is_line_terminator_def)

text \<open>
  C10. Every name the scanner returns differs from the template base name, and the
  destination name that the external-credential rule forms from it is the name of a
  regular file in the scanned directory.
\<close>

theorem getExistingInstances_roundtrip:
  assumes "getExistingInstances fs = Inr names" and "n \<in> set names"
  shows "n \<noteq> TEMPLATE_NAME \<and> dir (FILES ! 0) = ''externalCredentials'' \<and>
         (\<exists>entries cont. fs (dir (FILES ! 0)) = Directory entries \<and>
                          (newName (FILES ! 0) n, File cont) \<in> set entries)"
proof (cases "fs ''externalCredentials''")
  case Missing
  with assms show ?thesis by (simp add: getExistingInstances_def)
next
  case NotDirectory
  with assms show ?thesis by (simp add: getExistingInstances_def)
next
  case (Directory entries)
  with assms have "n \<in> set (scan_entries entries [])"
    by (auto simp: getExistingInstances_def)
  then have "n \<noteq> TEMPLATE_NAME"
    and "\<exists>f cont. (f, File cont) \<in> set entries \<and> instance_file_name n f"
    unfolding set_scan_entries by auto
  then show ?thesis
    by (auto simp: Directory FILES_def instance_file_name_def)
qed

theorem getExistingInstances_roundtrip_witness:
  "''foo'' \<noteq> TEMPLATE_NAME \<and>
   (\<exists>entries cont. example_fs (dir (FILES ! 0)) = Directory entries \<and>
                    (newName (FILES ! 0) ''foo'', File cont) \<in> set entries)"
proof -
  have "''foo'' \<in> set [''bar'', ''foo'']" by simp
  from getExistingInstances_roundtrip [OF getExistingInstances_example this]
  show ?thesis by blast
qed

section \<open>Collected values and the review\<close>

lemma promptWithValidation_valid:
  "promptWithValidation v out ins = Inr (a, out', ins') \<Longrightarrow> validate v a"
  by (induction ins arbitrary: out) (auto simp: Let_def split: if_splits)

lemma collectValues_VARIABLES:
  assumes "collectValues VARIABLES Map.empty out ins = Inr (vals, out', ins')"
  shows "\<exists>name url auth ns.
           vals = [''MCP_NAME'' \<mapsto> name, ''MCP_SERVER_URL'' \<mapsto> url,
                   ''AUTH_PROVIDER_URL'' \<mapsto> auth, ''NAMESPACE'' \<mapsto> ns] \<and>
           validate (VARIABLES ! 0) name \<and> validate (VARIABLES ! 1) url \<and>
           validate (VARIABLES ! 2) auth \<and> validate (VARIABLES ! 3) ns"
proof -
  obtain v0 v1 v2 v3 where vs: "VARIABLES = [v0, v1, v2, v3]"
    and keys: "key v0 = ''MCP_NAME''" "key v1 = ''MCP_SERVER_URL''"
      "key v2 = ''AUTH_PROVIDER_URL''" "key v3 = ''NAMESPACE''"
    by (simp add: VARIABLES_def)
  from assms obtain a0 o0 i0 a1 o1 i1 a2 o2 i2 a3 where
    p: "promptWithValidation v0 out ins = Inr (a0, o0, i0)"
       "promptWithValidation v1 o0 i0 = Inr (a1, o1, i1)"
       "promptWithValidation v2 o1 i1 = Inr (a2, o2, i2)"
       "promptWithValidation v3 o2 i2 = Inr (a3, out', ins')"
    and vals: "vals = [key v0 \<mapsto> a0, key v1 \<mapsto> a1, key v2 \<mapsto> a2, key v3 \<mapsto> a3]"
    unfolding vs by (auto split: sum.splits)
  from p have "validate v0 a0" "validate v1 a1" "validate v2 a2" "validate v3 a3"
    by (auto dest: promptWithValidation_valid)
  with vals keys show ?thesis unfolding vs by auto
qed

lemma main_gather_values:
  assumes "main_gather fs ins = Inr (vals, out, rest)"
  shows "\<exists>name url auth ns.
           vals = [''MCP_NAME'' \<mapsto> name, ''MCP_SERVER_URL'' \<mapsto> url,
                   ''AUTH_PROVIDER_URL'' \<mapsto> auth, ''NAMESPACE'' \<mapsto> ns] \<and>
           validate (VARIABLES ! 0) name \<and> validate (VARIABLES ! 1) url \<and>
           validate (VARIABLES ! 2) auth \<and> validate (VARIABLES ! 3) ns"
proof -
  from assms obtain out2 ins1 where
    "collectValues VARIABLES Map.empty out2 ins1 = Inr (vals, out, rest)"
    by (auto simp: main_gather_def Let_def split: list.splits sum.splits)
  then show ?thesis by (rule collectValues_VARIABLES)
qed

lemma of_char_lower_char:
  "(of_char (lower_char ch) :: nat) =
   (if (65 \<le> (of_char ch :: nat) \<and> (of_char ch :: nat) \<le> 90) \<or>
       (192 \<le> (of_char ch :: nat) \<and> (of_char ch :: nat) \<le> 222 \<and> (of_char ch :: nat) \<noteq> 215)
    then of_char ch + 32 else of_char ch)"
proof -
  have ne: "ch \<noteq> CHR 0xD7 \<longleftrightarrow> (of_char ch :: nat) \<noteq> 215"
    using of_char_eq_iff [of ch "CHR 0xD7", where ?'a = nat] by simp
  show ?thesis
    unfolding lower_char_def less_eq_char_def ne by (simp add: of_char_of)
qed

lemma lower_char_y: "lower_char ch = CHR ''y'' \<longleftrightarrow> ch = CHR ''y'' \<or> ch = CHR ''Y''"
proof -
  have "lower_char ch = CHR ''y'' \<longleftrightarrow> (of_char (lower_char ch) :: nat) = 121"
    using of_char_eq_iff [of "lower_char ch" "CHR ''y''", where ?'a = nat] by simp
  also have "\<dots> \<longleftrightarrow> (of_char ch :: nat) = 121 \<or> (of_char ch :: nat) = 89"
    unfolding of_char_lower_char by auto
  also have "\<dots> \<longleftrightarrow> ch = CHR ''y'' \<or> ch = CHR ''Y''"
    using of_char_eq_iff [of ch "CHR ''y''", where ?'a = nat]
          of_char_eq_iff [of ch "CHR ''Y''", where ?'a = nat] by simp
  finally show ?thesis .
qed

lemma toLowerCase_y: "toLowerCase a = ''y'' \<longleftrightarrow> a = ''y'' \<or> a = ''Y''"
  by (cases a) (auto simp: toLowerCase_def lower_char_y)

lemma example_validation:
  "validate (VARIABLES ! 0) ''w''" "validate (VARIABLES ! 0) ''foo''"
  "validate (VARIABLES ! 0) ''template''"
  "validate (VARIABLES ! 1) ''http://a''" "validate (VARIABLES ! 2) ''https://b''"
  "validate (VARIABLES ! 3) ''acme''" "validate (VARIABLES ! 3) []"
  by (simp_all add: VARIABLES_def rx_test_identifier rx_test_url identifier_style_def
        url_style_line_def is_letter_def is_digit_def is_line_terminator_def)

lemma example_gather:
  assumes "validate (VARIABLES ! 0) name" "validate (VARIABLES ! 1) url"
    "validate (VARIABLES ! 2) auth" "validate (VARIABLES ! 3) ns"
  shows "\<exists>out. main_gather example_fs ([] # name # url # auth # ns # rest) =
           Inr ([''MCP_NAME'' \<mapsto> name, ''MCP_SERVER_URL'' \<mapsto> url,
                 ''AUTH_PROVIDER_URL'' \<mapsto> auth, ''NAMESPACE'' \<mapsto> ns], out, rest)"
proof -
  obtain v0 v1 v2 v3 where vs: "VARIABLES = [v0, v1, v2, v3]"
    and keys: "key v0 = ''MCP_NAME''" "key v1 = ''MCP_SERVER_URL''"
      "key v2 = ''AUTH_PROVIDER_URL''" "key v3 = ''NAMESPACE''"
    by (simp add: VARIABLES_def)
  from assms have "validate v0 name" "validate v1 url" "validate v2 auth" "validate v3 ns"
    unfolding vs by simp_all
  then show ?thesis
    by (simp add: main_gather_def getExistingInstances_example vs keys Let_def)
qed

text \<open>
  C2, as amended. The values collected by a run hold the four variables, and the
  replacement map derived from them has exactly four tokens: \<open>MCP_NAME\<close>,
  \<open>MCP_SERVER_URL\<close> and \<open>AUTH_PROVIDER_URL\<close> map to the values of these variables, and
  \<open>NAMESPACE__\<close> maps to the empty string when the namespace is empty and to the
  namespace followed by two underscores otherwise. The map has no entry for the
  namespace value itself.
\<close>

theorem replacement_map_tokens:
  assumes "main_gather fs ins = Inr (vals, out, rest)"
  shows "\<exists>name url auth ns.
           vals ''MCP_NAME'' = Some name \<and> vals ''MCP_SERVER_URL'' = Some url \<and>
           vals ''AUTH_PROVIDER_URL'' = Some auth \<and> vals ''NAMESPACE'' = Some ns \<and>
           buildReplacements vals =
             [(''MCP_NAME'', name), (''MCP_SERVER_URL'', url), (''AUTH_PROVIDER_URL'', auth),
              (''NAMESPACE__'', if ns = [] then [] else ns @ ''__'')]"
proof -
  from main_gather_values [OF assms] obtain name url auth ns where
    "vals = [''MCP_NAME'' \<mapsto> name, ''MCP_SERVER_URL'' \<mapsto> url,
             ''AUTH_PROVIDER_URL'' \<mapsto> auth, ''NAMESPACE'' \<mapsto> ns]" by blast
  then show ?thesis
    by (simp add: buildReplacements_def ToString_def namespacePrefix_def)
qed

theorem replacement_map_tokens_witness:
  "(\<exists>vals out.
      main_gather example_fs [[], ''w'', ''http://a'', ''https://b'', ''acme''] = Inr (vals, out, []) \<and>
      buildReplacements vals =
        [(''MCP_NAME'', ''w''), (''MCP_SERVER_URL'', ''http://a''),
         (''AUTH_PROVIDER_URL'', ''https://b''), (''NAMESPACE__'', ''acme__'')]) \<and>
   (\<exists>vals out.
      main_gather example_fs [[], ''w'', ''http://a'', ''https://b'', []] = Inr (vals, out, []) \<and>
      buildReplacements vals =
        [(''MCP_NAME'', ''w''), (''MCP_SERVER_URL'', ''http://a''),
         (''AUTH_PROVIDER_URL'', ''https://b''), (''NAMESPACE__'', [])])"
proof -
  have run: "\<exists>vals out.
      main_gather example_fs [[], ''w'', ''http://a'', ''https://b'', ns] = Inr (vals, out, []) \<and>
      buildReplacements vals =
        [(''MCP_NAME'', ''w''), (''MCP_SERVER_URL'', ''http://a''),
         (''AUTH_PROVIDER_URL'', ''https://b''), (''NAMESPACE__'', if ns = [] then [] else ns @ ''__'')]"
    if "validate (VARIABLES ! 3) ns" for ns
  proof -
    from example_gather [OF example_validation(1,4,5) that, of "[]"] obtain out where
      g: "main_gather example_fs [[], ''w'', ''http://a'', ''https://b'', ns] =
            Inr ([''MCP_NAME'' \<mapsto> ''w'', ''MCP_SERVER_URL'' \<mapsto> ''http://a'',
                  ''AUTH_PROVIDER_URL'' \<mapsto> ''https://b'', ''NAMESPACE'' \<mapsto> ns], out, [])"
      by blast
    from replacement_map_tokens [OF g] have
      "buildReplacements [''MCP_NAME'' \<mapsto> ''w'', ''MCP_SERVER_URL'' \<mapsto> ''http://a'',
                  ''AUTH_PROVIDER_URL'' \<mapsto> ''https://b'', ''NAMESPACE'' \<mapsto> ns] =
        [(''MCP_NAME'', ''w''), (''MCP_SERVER_URL'', ''http://a''),
         (''AUTH_PROVIDER_URL'', ''https://b''), (''NAMESPACE__'', if ns = [] then [] else ns @ ''__'')]"
      by auto
    with g show ?thesis by blast
  qed
  from run [OF example_validation(6)] run [OF example_validation(7)] show ?thesis by simp
qed

text \<open>
  C2, as stated, fails for the namespace \<open>acme\<close>: the replacement map has no entry
  under \<open>NAMESPACE\<close>, and no token of the map has the value \<open>acme\<close>.
\<close>

theorem replacement_map_counterexample:
  "map_of (buildReplacements [''MCP_NAME'' \<mapsto> ''w'', ''MCP_SERVER_URL'' \<mapsto> ''http://a'',
             ''AUTH_PROVIDER_URL'' \<mapsto> ''https://b'', ''NAMESPACE'' \<mapsto> ''acme''])
     ''NAMESPACE'' = None \<and>
   ''acme'' \<notin> snd ` set (buildReplacements [''MCP_NAME'' \<mapsto> ''w'', ''MCP_SERVER_URL'' \<mapsto> ''http://a'',
             ''AUTH_PROVIDER_URL'' \<mapsto> ''https://b'', ''NAMESPACE'' \<mapsto> ''acme''])"
  by (simp add: buildReplacements_def ToString_def namespacePrefix_def)

text \<open>
  C7. When the answer to the review confirmation is neither \<open>y\<close> nor \<open>Y\<close>, the run ends
  with the warning and exit status 0, and the file system is the one the run started
  with.
\<close>

theorem review_declined:
  assumes "main_gather fs ins = Inr (vals, out, answer # rest)"
    and "answer \<noteq> ''y''" and "answer \<noteq> ''Y''"
  shows "main fs ins =
           \<lparr> status = Exit 0,
             console = out @ [Header ''Step 2: Review Configuration'', Question ApplyChanges,
                              Warning ''Setup cancelled. No changes were made.''],
             files = fs \<rparr>"
  using assms by (simp add: main_def main_review_def cancelled_def toLowerCase_y)

theorem review_declined_witness:
  "\<exists>out. main example_fs [[], ''w'', ''http://a'', ''https://b'', ''acme'', ''yes''] =
           \<lparr> status = Exit 0,
             console = out @ [Header ''Step 2: Review Configuration'', Question ApplyChanges,
                              Warning ''Setup cancelled. No changes were made.''],
             files = example_fs \<rparr>"
proof -
  from example_gather [OF example_validation(1,4,5,6), of "[''yes'']"] obtain out where
    g: "main_gather example_fs [[], ''w'', ''http://a'', ''https://b'', ''acme'', ''yes''] =
          Inr ([''MCP_NAME'' \<mapsto> ''w'', ''MCP_SERVER_URL'' \<mapsto> ''http://a'',
                ''AUTH_PROVIDER_URL'' \<mapsto> ''https://b'', ''NAMESPACE'' \<mapsto> ''acme''], out, [''yes''])"
    by blast
  have "''yes'' \<noteq> ''y''" "''yes'' \<noteq> ''Y''" by simp_all
  from review_declined [OF g this] show ?thesis by blast
qed

section \<open>Applying the changes\<close>

lemma utf8_length_le: "utf8_length s \<le> 2 * length s"
  by (induction s) (auto simp: utf8_length_def)

lemma name_short: "2 * length f \<le> 255 \<Longrightarrow> \<not> name_too_long f"
  using utf8_length_le [of f] by (simp add: name_too_long_def NAME_MAX_def)

lemma existsSync_cong: "fs' d = fs d \<Longrightarrow> existsSync fs' (d, f) = existsSync fs (d, f)"
  by simp

lemma readFileSync_cong: "fs' d = fs d \<Longrightarrow> readFileSync fs' (d, f) = readFileSync fs (d, f)"
  by simp

lemma report_cong: "fs' (dir rl) = fs (dir rl) \<Longrightarrow> report fs' name rl = report fs name rl"
  by (simp add: report_def)

lemma render_error_cong:
  "fs' (dir rl) = fs (dir rl) \<Longrightarrow> render_error fs' name reps rl = render_error fs name reps rl"
  by (auto simp: render_error_def copyFromTemplate_def
        split: slot.splits option.splits node.splits)

lemma not_existsSync_readFileSync:
  "\<not> existsSync fs p \<Longrightarrow> readFileSync fs p \<noteq> Inr c"
  by (cases p) (auto split: slot.splits option.splits)

lemma copyFromTemplate_Inr:
  assumes "copyFromTemplate fs (d, t) (d, f) reps = Inr fs'"
  shows "\<exists>es c. fs d = Directory es \<and> readFileSync fs (d, t) = Inr c \<and> \<not> name_too_long f \<and>
           fs' = fs(d := Directory (AList.update f (File (applyReplacements c reps)) es))"
  using assms
  by (auto simp: copyFromTemplate_def split: slot.splits option.splits node.splits if_splits)

lemma loop_cong:
  assumes "\<And>rl. rl \<in> set rules \<Longrightarrow> fs' (dir rl) = fs (dir rl)"
  shows "loop_completed fs' name reps rules = loop_completed fs name reps rules \<and>
         loop_failure fs' name reps rules = loop_failure fs name reps rules \<and>
         map (report fs' name) rules = map (report fs name) rules"
  using assms
proof (induction rules)
  case Nil
  show ?case by simp
next
  case (Cons rl rules)
  have here: "fs' (dir rl) = fs (dir rl)" by (rule Cons.prems) simp
  have rest: "\<And>r. r \<in> set rules \<Longrightarrow> fs' (dir r) = fs (dir r)" by (rule Cons.prems) simp
  note re = render_error_cong [where fs' = fs' and fs = fs and rl = rl, OF here]
  note rp = report_cong [where fs' = fs' and fs = fs and rl = rl, OF here]
  from Cons.IH [OF rest] show ?case by (simp add: re rp split: option.splits)
qed

lemma loop_completed_subset: "set (loop_completed fs name reps rules) \<subseteq> set rules"
  by (induction rules) (auto split: option.splits)

lemma render_error_missing:
  "\<not> existsSync fs (dir rl, oldName rl) \<Longrightarrow> render_error fs name reps rl = None"
  by (simp add: render_error_def)

lemma applyChanges_outcome:
  assumes "distinct (map dir rules)"
  shows "\<exists>fs'.
           applyChanges rules name reps fs out =
             (case loop_failure fs name reps rules of
                None \<Rightarrow> Inr (fs', out @ map (report fs name) (loop_completed fs name reps rules))
              | Some e \<Rightarrow>
                  Inl (e, fs', out @ map (report fs name) (loop_completed fs name reps rules))) \<and>
           (\<forall>d. d \<notin> dir ` set (loop_completed fs name reps rules) \<longrightarrow> fs' d = fs d) \<and>
           (\<forall>rl\<in>set (loop_completed fs name reps rules).
              (\<not> existsSync fs (dir rl, oldName rl) \<longrightarrow> fs' (dir rl) = fs (dir rl)) \<and>
              (\<forall>c. readFileSync fs (dir rl, oldName rl) = Inr c \<longrightarrow>
                   readFileSync fs' (dir rl, newName rl name) = Inr (applyReplacements c reps)))"
  using assms
proof (induction rules arbitrary: fs out)
  case Nil
  show ?case by simp
next
  case (Cons rl rules)
  from Cons.prems have fresh: "dir rl \<notin> dir ` set rules" and dist: "distinct (map dir rules)"
    by auto
  have fresh': "dir rl \<notin> dir ` set (loop_completed fs0 name reps rules)" for fs0
    using fresh loop_completed_subset [of fs0 name reps rules] by blast
  define props where "props fs0 fs1 r \<longleftrightarrow>
      (\<not> existsSync fs0 (dir r, oldName r) \<longrightarrow> fs1 (dir r) = fs0 (dir r)) \<and>
      (\<forall>c. readFileSync fs0 (dir r, oldName r) = Inr c \<longrightarrow>
           readFileSync fs1 (dir r, newName r name) = Inr (applyReplacements c reps))"
    for fs0 fs1 and r :: file_rule
  have goal_props: ?case
    if "applyChanges (rl # rules) name reps fs out =
             (case loop_failure fs name reps (rl # rules) of
                None \<Rightarrow> Inr (fs', out @ map (report fs name) (loop_completed fs name reps (rl # rules)))
              | Some e \<Rightarrow>
                  Inl (e, fs', out @ map (report fs name) (loop_completed fs name reps (rl # rules))))"
      and "\<forall>d. d \<notin> dir ` set (loop_completed fs name reps (rl # rules)) \<longrightarrow> fs' d = fs d"
      and "\<forall>r\<in>set (loop_completed fs name reps (rl # rules)). props fs fs' r"
    for fs'
    using that unfolding props_def by blast
  show ?case
  proof (cases "existsSync fs (dir rl, oldName rl)")
    case False
    then have re: "render_error fs name reps rl = None" by (rule render_error_missing)
    from Cons.IH [OF dist, of fs "out @ [Error (''Template not found: '' @ oldName rl)]"]
    obtain fs' where fs':
      "applyChanges rules name reps fs (out @ [Error (''Template not found: '' @ oldName rl)]) =
         (case loop_failure fs name reps rules of
            None \<Rightarrow> Inr (fs', (out @ [Error (''Template not found: '' @ oldName rl)])
                              @ map (report fs name) (loop_completed fs name reps rules))
          | Some e \<Rightarrow> Inl (e, fs', (out @ [Error (''Template not found: '' @ oldName rl)])
                              @ map (report fs name) (loop_completed fs name reps rules)))"
      "\<forall>d. d \<notin> dir ` set (loop_completed fs name reps rules) \<longrightarrow> fs' d = fs d"
      "\<forall>r\<in>set (loop_completed fs name reps rules). props fs fs' r"
      unfolding props_def by blast
    have here: "fs' (dir rl) = fs (dir rl)" using fs'(2) fresh' by blast
    show ?thesis
    proof (rule goal_props [of fs'])
      show "applyChanges (rl # rules) name reps fs out =
             (case loop_failure fs name reps (rl # rules) of
                None \<Rightarrow> Inr (fs', out @ map (report fs name) (loop_completed fs name reps (rl # rules)))
              | Some e \<Rightarrow>
                  Inl (e, fs', out @ map (report fs name) (loop_completed fs name reps (rl # rules))))"
        using False fs'(1) by (simp add: re report_def split: option.splits)
      show "\<forall>d. d \<notin> dir ` set (loop_completed fs name reps (rl # rules)) \<longrightarrow> fs' d = fs d"
        using fs'(2) by (simp add: re)
      show "\<forall>r\<in>set (loop_completed fs name reps (rl # rules)). props fs fs' r"
        using fs'(3) here not_existsSync_readFileSync [OF False]
        by (simp add: re) (simp add: props_def)
    qed
  next
    case True
    show ?thesis
    proof (cases "copyFromTemplate fs (dir rl, oldName rl) (dir rl, newName rl name) reps")
      case (Inl e)
      with True have re: "render_error fs name reps rl = Some e" by (simp add: render_error_def)
      show ?thesis
      proof (rule goal_props [of fs])
        show "applyChanges (rl # rules) name reps fs out =
             (case loop_failure fs name reps (rl # rules) of
                None \<Rightarrow> Inr (fs, out @ map (report fs name) (loop_completed fs name reps (rl # rules)))
              | Some e \<Rightarrow>
                  Inl (e, fs, out @ map (report fs name) (loop_completed fs name reps (rl # rules))))"
          using True Inl by (simp add: re)
        show "\<forall>d. d \<notin> dir ` set (loop_completed fs name reps (rl # rules)) \<longrightarrow> fs d = fs d"
          by simp
        show "\<forall>r\<in>set (loop_completed fs name reps (rl # rules)). props fs fs r"
          by (simp add: re)
      qed
    next
      case (Inr fs1)
      with True have re: "render_error fs name reps rl = None" by (simp add: render_error_def)
      from copyFromTemplate_Inr [OF Inr] obtain es c where
        es: "fs (dir rl) = Directory es" and c: "readFileSync fs (dir rl, oldName rl) = Inr c"
        and short: "\<not> name_too_long (newName rl name)"
        and fs1: "fs1 = fs(dir rl := Directory (AList.update (newName rl name)
                                                  (File (applyReplacements c reps)) es))"
        by blast
      have same: "fs1 (dir r) = fs (dir r)" if "r \<in> set rules" for r
      proof -
        from that fresh have "dir r \<noteq> dir rl" by (metis imageI)
        then show ?thesis by (simp add: fs1)
      qed
      have lc: "loop_completed fs1 name reps rules = loop_completed fs name reps rules"
        and lf: "loop_failure fs1 name reps rules = loop_failure fs name reps rules"
        using loop_cong [where fs' = fs1 and fs = fs and rules = rules and name = name and reps = reps,
            OF same] by simp_all
      from Cons.IH [OF dist, of fs1 "out @ [Success (''Created: '' @ newName rl name)]"]
      obtain fs' where fs':
        "applyChanges rules name reps fs1 (out @ [Success (''Created: '' @ newName rl name)]) =
           (case loop_failure fs name reps rules of
              None \<Rightarrow> Inr (fs', (out @ [Success (''Created: '' @ newName rl name)])
                                @ map (report fs1 name) (loop_completed fs name reps rules))
            | Some e \<Rightarrow> Inl (e, fs', (out @ [Success (''Created: '' @ newName rl name)])
                                @ map (report fs1 name) (loop_completed fs name reps rules)))"
        "\<forall>d. d \<notin> dir ` set (loop_completed fs name reps rules) \<longrightarrow> fs' d = fs1 d"
        "\<forall>r\<in>set (loop_completed fs name reps rules). props fs1 fs' r"
        unfolding props_def lc lf by blast
      have reports: "map (report fs1 name) (loop_completed fs name reps rules) =
                     map (report fs name) (loop_completed fs name reps rules)"
      proof (rule map_cong [OF refl])
        fix r assume "r \<in> set (loop_completed fs name reps rules)"
        with loop_completed_subset have "r \<in> set rules" by blast
        from same [OF this] show "report fs1 name r = report fs name r"
          by (rule report_cong [where fs' = fs1 and fs = fs and rl = r])
      qed
      have here: "fs' (dir rl) = fs1 (dir rl)" using fs'(2) fresh' by blast
      have written: "readFileSync fs' (dir rl, newName rl name) = Inr (applyReplacements c reps)"
        using short by (simp add: here fs1 update_conv')
      show ?thesis
      proof (rule goal_props [of fs'])
        show "applyChanges (rl # rules) name reps fs out =
             (case loop_failure fs name reps (rl # rules) of
                None \<Rightarrow> Inr (fs', out @ map (report fs name) (loop_completed fs name reps (rl # rules)))
              | Some e \<Rightarrow>
                  Inl (e, fs', out @ map (report fs name) (loop_completed fs name reps (rl # rules))))"
          using True Inr fs'(1) unfolding reports
          by (simp add: re report_def split: option.splits)
        show "\<forall>d. d \<notin> dir ` set (loop_completed fs name reps (rl # rules)) \<longrightarrow> fs' d = fs d"
          using fs'(2) by (simp add: re fs1)
        show "\<forall>r\<in>set (loop_completed fs name reps (rl # rules)). props fs fs' r"
        proof
          fix r assume r: "r \<in> set (loop_completed fs name reps (rl # rules))"
          show "props fs fs' r"
          proof (cases "r \<in> set (loop_completed fs name reps rules)")
            case in_rest: True
            with loop_completed_subset have "r \<in> set rules" by blast
            note s = same [OF this]
            from fs'(3) in_rest have "props fs1 fs' r" by blast
            then show ?thesis
              unfolding props_def
              by (simp only: existsSync_cong [where fs' = fs1 and fs = fs, OF s]
                    readFileSync_cong [where fs' = fs1 and fs = fs, OF s] s)
          next
            case False
            with r have "r = rl" by (simp add: re)
            with True c written show ?thesis by (simp add: props_def del: readFileSync.simps existsSync.simps)
          qed
        qed
      qed
    qed
  qed
qed

lemma applyChanges_console:
  "(applyChanges rules name reps fs out = Inl (e, fs', out') \<or>
    applyChanges rules name reps fs out = Inr (fs', out'))
   \<Longrightarrow> \<exists>evs. out' = out @ evs \<and> (\<forall>q. Question q \<notin> set evs)"
proof (induction rules arbitrary: fs out)
  case Nil
  then show ?case by simp
next
  case (Cons rl rules)
  show ?case
  proof (cases "existsSync fs (dir rl, oldName rl)")
    case False
    with Cons.prems have
      "applyChanges rules name reps fs (out @ [Error (''Template not found: '' @ oldName rl)]) = Inl (e, fs', out') \<or>
       applyChanges rules name reps fs (out @ [Error (''Template not found: '' @ oldName rl)]) = Inr (fs', out')"
      by simp
    from Cons.IH [OF this] show ?thesis by auto
  next
    case True
    show ?thesis
    proof (cases "copyFromTemplate fs (dir rl, oldName rl) (dir rl, newName rl name) reps")
      case (Inl err)
      with True Cons.prems show ?thesis by simp
    next
      case (Inr fs1)
      with True Cons.prems have
        "applyChanges rules name reps fs1 (out @ [Success (''Created: '' @ newName rl name)]) = Inl (e, fs', out') \<or>
         applyChanges rules name reps fs1 (out @ [Success (''Created: '' @ newName rl name)]) = Inr (fs', out')"
        by simp
      from Cons.IH [OF this] show ?thesis by auto
    qed
  qed
qed

lemma FILES_distinct_dirs: "distinct (map dir FILES)"
  by (simp add: FILES_def)

lemma instanceExists_iff:
  "instanceExists fs name \<longleftrightarrow>
     existsSync fs (''externalCredentials'', name @ ''.externalCredential-meta.xml'') \<or>
     existsSync fs (''externalServiceRegistrations'', name @ ''.externalServiceRegistration-meta.xml'') \<or>
     existsSync fs (''namedCredentials'', name @ ''.namedCredential-meta.xml'') \<or>
     existsSync fs (''permissionsets'', name @ ''_Perm_Set.permissionset-meta.xml'')"
  by (simp add: instanceExists_def FILES_def del: existsSync.simps)

lemma loop_failure_None:
  "loop_failure fs name reps rules = None \<Longrightarrow> loop_completed fs name reps rules = rules"
  by (induction rules) (auto split: option.splits)

lemma io_safe_render_error: "io_safe fs name rl \<Longrightarrow> render_error fs name reps rl = None"
  by (auto simp: io_safe_def render_error_def copyFromTemplate_def
        split: slot.splits option.splits node.splits)

lemma io_safe_loop_failure:
  "\<forall>rl\<in>set rules. io_safe fs name rl \<Longrightarrow> loop_failure fs name reps rules = None"
  by (induction rules) (auto simp: io_safe_render_error)

lemma main_apply_outcome:
  assumes "vals ''MCP_NAME'' = Some name"
  shows "\<exists>fs'. main_apply vals fs out =
           \<lparr> status = (case loop_failure fs name (buildReplacements vals) FILES of
                         None \<Rightarrow> Exit 0 | Some e \<Rightarrow> Exit 1),
             console = out @ [Header ''Step 3: Applying Changes'']
                       @ map (report fs name) (loop_completed fs name (buildReplacements vals) FILES)
                       @ (case loop_failure fs name (buildReplacements vals) FILES of
                            None \<Rightarrow> [Header ''Setup Complete!'', Success ''Happy coding!'']
                          | Some e \<Rightarrow> [Failure e]),
             files = fs' \<rparr> \<and>
           (\<forall>d. d \<notin> dir ` set (loop_completed fs name (buildReplacements vals) FILES)
                \<longrightarrow> fs' d = fs d) \<and>
           (\<forall>rl\<in>set (loop_completed fs name (buildReplacements vals) FILES).
              (\<not> existsSync fs (dir rl, oldName rl) \<longrightarrow> fs' (dir rl) = fs (dir rl)) \<and>
              (\<forall>c. readFileSync fs (dir rl, oldName rl) = Inr c \<longrightarrow>
                   readFileSync fs' (dir rl, newName rl name) =
                     Inr (applyReplacements c (buildReplacements vals))))"
proof -
  from applyChanges_outcome [OF FILES_distinct_dirs,
      of name "buildReplacements vals" fs "out @ [Header ''Step 3: Applying Changes'']"]
  obtain fs' where
    run: "applyChanges FILES name (buildReplacements vals) fs (out @ [Header ''Step 3: Applying Changes'']) =
       (case loop_failure fs name (buildReplacements vals) FILES of
          None \<Rightarrow> Inr (fs', (out @ [Header ''Step 3: Applying Changes''])
                         @ map (report fs name) (loop_completed fs name (buildReplacements vals) FILES))
        | Some e \<Rightarrow> Inl (e, fs', (out @ [Header ''Step 3: Applying Changes''])
                         @ map (report fs name) (loop_completed fs name (buildReplacements vals) FILES)))"
    and rest: "(\<forall>d. d \<notin> dir ` set (loop_completed fs name (buildReplacements vals) FILES)
                \<longrightarrow> fs' d = fs d) \<and>
           (\<forall>rl\<in>set (loop_completed fs name (buildReplacements vals) FILES).
              (\<not> existsSync fs (dir rl, oldName rl) \<longrightarrow> fs' (dir rl) = fs (dir rl)) \<and>
              (\<forall>c. readFileSync fs (dir rl, oldName rl) = Inr c \<longrightarrow>
                   readFileSync fs' (dir rl, newName rl name) =
                     Inr (applyReplacements c (buildReplacements vals))))"
    by blast
  have "main_apply vals fs out =
           \<lparr> status = (case loop_failure fs name (buildReplacements vals) FILES of
                         None \<Rightarrow> Exit 0 | Some e \<Rightarrow> Exit 1),
             console = out @ [Header ''Step 3: Applying Changes'']
                       @ map (report fs name) (loop_completed fs name (buildReplacements vals) FILES)
                       @ (case loop_failure fs name (buildReplacements vals) FILES of
                            None \<Rightarrow> [Header ''Setup Complete!'', Success ''Happy coding!'']
                          | Some e \<Rightarrow> [Failure e]),
             files = fs' \<rparr>"
    using assms run by (simp add: main_apply_def ToString_def failed_def split: option.splits)
  with rest show ?thesis by blast
qed

lemma main_loop:
  assumes gather: "main_gather fs ins = Inr (vals, out, confirm # rest)"
    and yes: "toLowerCase confirm = ''y''"
    and name: "vals ''MCP_NAME'' = Some name"
    and overwrite: "instanceExists fs name \<longrightarrow> (\<exists>a rest'. rest = a # rest' \<and> toLowerCase a = ''y'')"
  shows "\<exists>fs'. main fs ins =
           \<lparr> status = (case loop_failure fs name (buildReplacements vals) FILES of
                         None \<Rightarrow> Exit 0 | Some e \<Rightarrow> Exit 1),
             console = out @ [Header ''Step 2: Review Configuration'', Question ApplyChanges]
                       @ (if instanceExists fs name then [Question (Overwrite name)] else [])
                       @ [Header ''Step 3: Applying Changes'']
                       @ map (report fs name) (loop_completed fs name (buildReplacements vals) FILES)
                       @ (case loop_failure fs name (buildReplacements vals) FILES of
                            None \<Rightarrow> [Header ''Setup Complete!'', Success ''Happy coding!'']
                          | Some e \<Rightarrow> [Failure e]),
             files = fs' \<rparr> \<and>
           (\<forall>d. d \<notin> dir ` set (loop_completed fs name (buildReplacements vals) FILES)
                \<longrightarrow> fs' d = fs d) \<and>
           (\<forall>rl\<in>set (loop_completed fs name (buildReplacements vals) FILES).
              (\<not> existsSync fs (dir rl, oldName rl) \<longrightarrow> fs' (dir rl) = fs (dir rl)) \<and>
              (\<forall>c. readFileSync fs (dir rl, oldName rl) = Inr c \<longrightarrow>
                   readFileSync fs' (dir rl, newName rl name) =
                     Inr (applyReplacements c (buildReplacements vals))))"
proof -
  define out1 where "out1 = out @ [Header ''Step 2: Review Configuration'', Question ApplyChanges]
                       @ (if instanceExists fs name then [Question (Overwrite name)] else [])"
  have "main fs ins = main_apply vals fs out1"
    using gather yes name overwrite
    by (auto simp: main_def main_review_def main_overwrite_def ToString_def out1_def Let_def)
  with main_apply_outcome [where vals = vals and out = out1 and fs = fs, OF name] show ?thesis
    unfolding out1_def by (simp del: existsSync.simps readFileSync.simps)
qed

lemma main_confirmed:
  assumes gather: "main_gather fs ins = Inr (vals, out, confirm # rest)"
    and yes: "toLowerCase confirm = ''y''"
    and name: "vals ''MCP_NAME'' = Some name"
    and overwrite: "instanceExists fs name \<longrightarrow> (\<exists>a rest'. rest = a # rest' \<and> toLowerCase a = ''y'')"
    and safe: "\<forall>rl\<in>set FILES. io_safe fs name rl"
  shows "\<exists>fs'. main fs ins =
           \<lparr> status = Exit 0,
             console = out @ [Header ''Step 2: Review Configuration'', Question ApplyChanges]
                       @ (if instanceExists fs name then [Question (Overwrite name)] else [])
                       @ [Header ''Step 3: Applying Changes''] @ map (report fs name) FILES
                       @ [Header ''Setup Complete!'', Success ''Happy coding!''],
             files = fs' \<rparr> \<and>
           (\<forall>rl\<in>set FILES.
              (\<not> existsSync fs (dir rl, oldName rl) \<longrightarrow> fs' (dir rl) = fs (dir rl)) \<and>
              (\<forall>c. readFileSync fs (dir rl, oldName rl) = Inr c \<longrightarrow>
                   readFileSync fs' (dir rl, newName rl name) =
                     Inr (applyReplacements c (buildReplacements vals))))"
proof -
  have none: "loop_failure fs name (buildReplacements vals) FILES = None"
    using safe by (rule io_safe_loop_failure)
  then have all: "loop_completed fs name (buildReplacements vals) FILES = FILES"
    by (rule loop_failure_None)
  from main_loop [where vals = vals, OF gather yes name overwrite] show ?thesis
    unfolding none all option.case by blast
qed



lemma example_io_safe: "length name \<le> 20 \<Longrightarrow> \<forall>rl\<in>set FILES. io_safe example_fs name rl"
  by (simp add: FILES_def io_safe_def example_fs_def example_directory_def TEMPLATE_NAME_def
        name_short)

lemma example_new_instance: "\<not> instanceExists example_fs ''w''"
  by (simp add: instanceExists_iff example_fs_def example_directory_def name_short)



text \<open>
  The renderer also fails for an instance name that makes a destination name longer than
  \<open>NAME_MAX\<close> bytes: with 228 letters the first destination name has 256.
\<close>

lemma length_le_utf8_length: "length f \<le> utf8_length f"
  unfolding utf8_length_def by (induction f) auto

lemma long_name_fails:
  assumes "227 < length name"
  shows "render_error example_fs name replacements (FILES ! 0) = Some ENAMETOOLONG"
proof -
  have "length (name @ ''.externalCredential-meta.xml'') \<le>
          utf8_length (name @ ''.externalCredential-meta.xml'')"
    by (rule length_le_utf8_length)
  with assms have long: "name_too_long (name @ ''.externalCredential-meta.xml'')"
    by (simp add: name_too_long_def NAME_MAX_def)
  have short: "\<not> name_too_long ''template.externalCredential-meta.xml''"
    by (simp add: name_short)
  show ?thesis
    using long short
    by (simp add: render_error_def copyFromTemplate_def FILES_def TEMPLATE_NAME_def
          example_fs_def example_directory_def)
qed

lemma main_apply_console:
  "\<exists>evs. console (main_apply vals fs out) = out @ evs \<and> (\<forall>q. Question q \<notin> set evs)"
proof (cases "applyChanges FILES (ToString (vals ''MCP_NAME'')) (buildReplacements vals) fs
                (out @ [Header ''Step 3: Applying Changes''])")
  case (Inl failure)
  obtain e fs' out' where failure: "failure = (e, fs', out')" by (cases failure)
  from applyChanges_console [OF disjI1, OF Inl [unfolded failure]] obtain evs where
    "out' = (out @ [Header ''Step 3: Applying Changes'']) @ evs" "\<forall>q. Question q \<notin> set evs"
    by blast
  then have "console (main_apply vals fs out) =
               out @ (Header ''Step 3: Applying Changes'' # evs @ [Failure e]) \<and>
             (\<forall>q. Question q \<notin> set (Header ''Step 3: Applying Changes'' # evs @ [Failure e]))"
    by (simp add: main_apply_def Inl failure failed_def)
  then show ?thesis by blast
next
  case (Inr res)
  obtain fs' out' where res: "res = (fs', out')" by (cases res)
  from applyChanges_console [OF disjI2, OF Inr [unfolded res]] obtain evs where
    "out' = (out @ [Header ''Step 3: Applying Changes'']) @ evs" "\<forall>q. Question q \<notin> set evs"
    by blast
  then have "console (main_apply vals fs out) =
               out @ (Header ''Step 3: Applying Changes'' # evs
                      @ [Header ''Setup Complete!'', Success ''Happy coding!'']) \<and>
             (\<forall>q. Question q \<notin> set (Header ''Step 3: Applying Changes'' # evs
                      @ [Header ''Setup Complete!'', Success ''Happy coding!'']))"
    by (simp add: main_apply_def Inr res)
  then show ?thesis by blast
qed

lemma main_overwrite_console:
  assumes "vals ''MCP_NAME'' = Some name"
  shows "\<exists>evs. console (main_overwrite vals fs out ins) = out @ evs \<and>
               (Question (Overwrite name) \<in> set evs \<longleftrightarrow> instanceExists fs name)"
proof (cases "instanceExists fs name")
  case False
  from main_apply_console [of vals fs out] obtain evs where
    "console (main_apply vals fs out) = out @ evs" "\<forall>q. Question q \<notin> set evs" by blast
  with False assms show ?thesis by (auto simp: main_overwrite_def ToString_def)
next
  case True
  from main_apply_console [of vals fs "out @ [Question (Overwrite name)]"] obtain evs where
    evs: "console (main_apply vals fs (out @ [Question (Overwrite name)])) =
            (out @ [Question (Overwrite name)]) @ evs" by blast
  have "\<exists>evs. console (main_overwrite vals fs out ins) = out @ Question (Overwrite name) # evs"
    using True assms evs
    by (auto simp: main_overwrite_def ToString_def Let_def awaiting_def cancelled_def
          split: list.splits)
  then obtain evs' where
    "console (main_overwrite vals fs out ins) = out @ Question (Overwrite name) # evs'" ..
  with True show ?thesis by auto
qed

text \<open>
  C8. In a run whose review confirmation was answered with yes, the overwrite question is
  asked if and only if one of the four destination files of the chosen name exists, each
  looked for in the directory of its own rule. When the question is asked and the answer
  is not yes, the run ends with the warning and exit status 0, the file system being the
  one the run started with.
\<close>

theorem overwrite_confirmation:
  assumes "main_gather fs ins = Inr (vals, out, confirm # rest)"
    and "toLowerCase confirm = ''y''"
    and "vals ''MCP_NAME'' = Some name"
  shows "(Question (Overwrite name) \<in> set (drop (length out) (console (main fs ins))) \<longleftrightarrow>
            existsSync fs (''externalCredentials'', name @ ''.externalCredential-meta.xml'') \<or>
            existsSync fs (''externalServiceRegistrations'',
                           name @ ''.externalServiceRegistration-meta.xml'') \<or>
            existsSync fs (''namedCredentials'', name @ ''.namedCredential-meta.xml'') \<or>
            existsSync fs (''permissionsets'', name @ ''_Perm_Set.permissionset-meta.xml'')) \<and>
         (\<forall>answer rest'.
            instanceExists fs name \<longrightarrow> rest = answer # rest' \<longrightarrow> toLowerCase answer \<noteq> ''y'' \<longrightarrow>
            main fs ins =
              \<lparr> status = Exit 0,
                console = out @ [Header ''Step 2: Review Configuration'', Question ApplyChanges,
                                 Question (Overwrite name),
                                 Warning ''Setup cancelled. No changes were made.''],
                files = fs \<rparr>)"
proof -
  define out1 where "out1 = out @ [Header ''Step 2: Review Configuration'', Question ApplyChanges]"
  have run: "main fs ins = main_overwrite vals fs out1 rest"
    using assms(1,2) by (simp add: main_def main_review_def out1_def)
  from main_overwrite_console [where vals = vals and fs = fs and out = out1 and ins = rest,
      OF assms(3)] obtain evs where
    evs: "console (main_overwrite vals fs out1 rest) = out1 @ evs"
      "Question (Overwrite name) \<in> set evs \<longleftrightarrow> instanceExists fs name" by blast
  have "drop (length out) (console (main fs ins)) =
          Header ''Step 2: Review Configuration'' # Question ApplyChanges # evs"
    unfolding run evs(1) unfolding out1_def by simp
  with evs(2) have asked:
    "Question (Overwrite name) \<in> set (drop (length out) (console (main fs ins))) \<longleftrightarrow>
       instanceExists fs name" by simp
  have declined: "main fs ins =
              \<lparr> status = Exit 0,
                console = out @ [Header ''Step 2: Review Configuration'', Question ApplyChanges,
                                 Question (Overwrite name),
                                 Warning ''Setup cancelled. No changes were made.''],
                files = fs \<rparr>"
    if "instanceExists fs name" "rest = answer # rest'" "toLowerCase answer \<noteq> ''y''"
    for answer rest'
    using that assms(3)
    by (simp add: run main_overwrite_def out1_def ToString_def cancelled_def)
  from asked declined show ?thesis
    unfolding instanceExists_iff [symmetric] by blast
qed

lemma example_existing_instance: "instanceExists example_fs ''foo''"
  by (simp add: instanceExists_iff example_fs_def example_directory_def name_short)

theorem overwrite_confirmation_witness:
  "(\<exists>out. Question (Overwrite ''foo'') \<in>
             set (drop (length out)
                       (console (main example_fs [[], ''foo'', ''http://a'', ''https://b'', ''acme'', ''Y'', ''n'']))) \<and>
           main example_fs [[], ''foo'', ''http://a'', ''https://b'', ''acme'', ''Y'', ''n''] =
              \<lparr> status = Exit 0,
                console = out @ [Header ''Step 2: Review Configuration'', Question ApplyChanges,
                                 Question (Overwrite ''foo''),
                                 Warning ''Setup cancelled. No changes were made.''],
                files = example_fs \<rparr>) \<and>
   (\<exists>out :: event list. Question (Overwrite ''w'') \<notin>
             set (drop (length out)
                       (console (main example_fs [[], ''w'', ''http://a'', ''https://b'', ''acme'', ''Y'']))))"
proof -
  let ?foo = "[''MCP_NAME'' \<mapsto> ''foo'', ''MCP_SERVER_URL'' \<mapsto> ''http://a'',
               ''AUTH_PROVIDER_URL'' \<mapsto> ''https://b'', ''NAMESPACE'' \<mapsto> ''acme'']"
  let ?w = "[''MCP_NAME'' \<mapsto> ''w'', ''MCP_SERVER_URL'' \<mapsto> ''http://a'',
             ''AUTH_PROVIDER_URL'' \<mapsto> ''https://b'', ''NAMESPACE'' \<mapsto> ''acme'']"
  have yes: "toLowerCase ''Y'' = ''y''" by (simp add: toLowerCase_y)
  have no: "toLowerCase ''n'' \<noteq> ''y''" by (simp add: toLowerCase_y)
  from example_gather [OF example_validation(2,4,5,6), of "[''Y'', ''n'']"] obtain out where
    g: "main_gather example_fs [[], ''foo'', ''http://a'', ''https://b'', ''acme'', ''Y'', ''n''] =
          Inr (?foo, out, [''Y'', ''n''])"
    by (rule exE)
  have name: "?foo ''MCP_NAME'' = Some ''foo''" by simp
  note foo = overwrite_confirmation [where vals = ?foo, OF g yes name,
      unfolded instanceExists_iff [symmetric]]
  from foo [THEN conjunct1] example_existing_instance have asked:
    "Question (Overwrite ''foo'') \<in>
       set (drop (length out)
              (console (main example_fs [[], ''foo'', ''http://a'', ''https://b'', ''acme'', ''Y'', ''n''])))"
    by (rule iffD2)
  note cancelled = foo [THEN conjunct2, rule_format, OF example_existing_instance refl no]
  from asked cancelled have first:
    "\<exists>out. Question (Overwrite ''foo'') \<in>
             set (drop (length out)
                       (console (main example_fs [[], ''foo'', ''http://a'', ''https://b'', ''acme'', ''Y'', ''n'']))) \<and>
           main example_fs [[], ''foo'', ''http://a'', ''https://b'', ''acme'', ''Y'', ''n''] =
              \<lparr> status = Exit 0,
                console = out @ [Header ''Step 2: Review Configuration'', Question ApplyChanges,
                                 Question (Overwrite ''foo''),
                                 Warning ''Setup cancelled. No changes were made.''],
                files = example_fs \<rparr>"
    by (intro exI [of _ out] conjI)
  from example_gather [OF example_validation(1,4,5,6), of "[''Y'']"] obtain out' where
    g': "main_gather example_fs [[], ''w'', ''http://a'', ''https://b'', ''acme'', ''Y''] =
          Inr (?w, out', [''Y''])"
    by (rule exE)
  have name': "?w ''MCP_NAME'' = Some ''w''" by simp
  note w = overwrite_confirmation [where vals = ?w, OF g' yes name',
      unfolded instanceExists_iff [symmetric]]
  have nw: "Question (Overwrite ''w'') \<notin>
             set (drop (length out')
                       (console (main example_fs [[], ''w'', ''http://a'', ''https://b'', ''acme'', ''Y''])))"
  proof
    assume "Question (Overwrite ''w'') \<in>
             set (drop (length out')
                       (console (main example_fs [[], ''w'', ''http://a'', ''https://b'', ''acme'', ''Y''])))"
    with w [THEN conjunct1] have "instanceExists example_fs ''w''" by (rule iffD1)
    with example_new_instance show False by (rule notE)
  qed
  have second:
    "\<exists>out :: event list. Question (Overwrite ''w'') \<notin>
             set (drop (length out)
                       (console (main example_fs [[], ''w'', ''http://a'', ''https://b'', ''acme'', ''Y''])))"
  proof (rule exI)
    show "Question (Overwrite ''w'') \<notin>
             set (drop (length out')
                       (console (main example_fs [[], ''w'', ''http://a'', ''https://b'', ''acme'', ''Y''])))"
      by (rule nw)
  qed
  from first second show ?thesis by (rule conjI)
qed

lemma example_render:
  "applyReplacements ''<label>MCP_NAME</label>''
     [(''MCP_NAME'', ''template''), (''MCP_SERVER_URL'', ''http://a''),
      (''AUTH_PROVIDER_URL'', ''https://b''), (''NAMESPACE__'', [])] = ''<label>template</label>''"
  by (simp add: applyReplacements_def replaceAll_def matchPositions.simps StringIndexOf.simps)

lemma example_template_instance: "instanceExists example_fs ''template''"
  by (simp add: instanceExists_iff example_fs_def example_directory_def name_short)

text \<open>
  C3 does not hold for the instance name \<open>template\<close>. The name passes the validation of
  \<open>MCP_NAME\<close>, the destination path of each rule is then the path of its template, and
  the run that is confirmed twice writes the rendering of the template over the template:
  the placeholder \<open>MCP_NAME\<close> is gone from it.
\<close>

theorem template_overwritten:
  "validate (VARIABLES ! 0) ''template'' \<and>
   readFileSync example_fs (''externalCredentials'', ''template.externalCredential-meta.xml'') =
     Inr ''<label>MCP_NAME</label>'' \<and>
   (\<exists>out fs'.
      main example_fs [[], ''template'', ''http://a'', ''https://b'', [], ''y'', ''y''] =
        \<lparr> status = Exit 0, console = out, files = fs' \<rparr> \<and>
      readFileSync fs' (''externalCredentials'', ''template.externalCredential-meta.xml'') =
        Inr ''<label>template</label>'')"
proof -
  let ?vals = "[''MCP_NAME'' \<mapsto> ''template'', ''MCP_SERVER_URL'' \<mapsto> ''http://a'',
                ''AUTH_PROVIDER_URL'' \<mapsto> ''https://b'', ''NAMESPACE'' \<mapsto> []]"
  have before: "readFileSync example_fs (''externalCredentials'', ''template.externalCredential-meta.xml'') =
     Inr ''<label>MCP_NAME</label>''"
    by (simp add: example_fs_def example_directory_def name_short)
  from example_gather [OF example_validation(3,4,5,7), of "[''y'', ''y'']"] obtain out where
    g: "main_gather example_fs [[], ''template'', ''http://a'', ''https://b'', [], ''y'', ''y''] =
          Inr (?vals, out, [''y'', ''y''])"
    by (rule exE)
  have yes: "toLowerCase ''y'' = ''y''" by (simp add: toLowerCase_y)
  have name: "?vals ''MCP_NAME'' = Some ''template''" by simp
  have again: "instanceExists example_fs ''template'' \<longrightarrow>
                 (\<exists>a rest'. [''y''] = a # rest' \<and> toLowerCase a = ''y'')"
    using yes by simp
  have safe: "\<forall>rl\<in>set FILES. io_safe example_fs ''template'' rl"
    by (rule example_io_safe) simp
  from main_confirmed [where vals = ?vals, OF g yes name again safe]
  obtain fs' c where
    run: "main example_fs [[], ''template'', ''http://a'', ''https://b'', [], ''y'', ''y''] =
            \<lparr> status = Exit 0, console = c, files = fs' \<rparr>"
    and rules: "\<forall>rl\<in>set FILES.
              (\<forall>c. readFileSync example_fs (dir rl, oldName rl) = Inr c \<longrightarrow>
                   readFileSync fs' (dir rl, newName rl ''template'') =
                     Inr (applyReplacements c (buildReplacements ?vals)))"
    by blast
  have reps: "buildReplacements ?vals =
      [(''MCP_NAME'', ''template''), (''MCP_SERVER_URL'', ''http://a''),
       (''AUTH_PROVIDER_URL'', ''https://b''), (''NAMESPACE__'', [])]"
    by (simp add: buildReplacements_def ToString_def namespacePrefix_def)
  from rules before have
    "readFileSync fs' (''externalCredentials'', ''template.externalCredential-meta.xml'') =
       Inr (applyReplacements ''<label>MCP_NAME</label>'' (buildReplacements ?vals))"
    by (simp add: FILES_def TEMPLATE_NAME_def del: readFileSync.simps)
  then have after:
    "readFileSync fs' (''externalCredentials'', ''template.externalCredential-meta.xml'') =
       Inr ''<label>template</label>''"
    by (simp only: reps example_render)
  from run after have "\<exists>out fs'.
      main example_fs [[], ''template'', ''http://a'', ''https://b'', [], ''y'', ''y''] =
        \<lparr> status = Exit 0, console = out, files = fs' \<rparr> \<and>
      readFileSync fs' (''externalCredentials'', ''template.externalCredential-meta.xml'') =
        Inr ''<label>template</label>''"
    by (intro exI [of _ c] exI [of _ fs'] conjI)
  with example_validation(3) before show ?thesis by (intro conjI)
qed

section \<open>Substitution\<close>













section \<open>Templates\<close>

lemma writeFileSync_other:
  assumes "writeFileSync fs (d, f) cont = Inr fs'" and "(d', t) \<noteq> (d, f)"
  shows "readFileSync fs' (d', t) = readFileSync fs (d', t)"
proof (cases "fs d")
  case Missing
  with assms show ?thesis by simp
next
  case NotDirectory
  with assms show ?thesis by simp
next
  case (Directory es)
  with assms(1) have fs': "fs' = fs(d := Directory (AList.update f (File cont) es))"
    by (auto split: option.splits node.splits if_splits)
  show ?thesis
  proof (cases "d' = d")
    case True
    with assms(2) have "t \<noteq> f" by simp
    then show ?thesis by (simp add: fs' True Directory update_conv')
  next
    case False
    then show ?thesis by (simp add: fs')
  qed
qed

lemma copyFromTemplate_other:
  assumes "copyFromTemplate fs tp (d, f) reps = Inr fs'" and "(d', t) \<noteq> (d, f)"
  shows "readFileSync fs' (d', t) = readFileSync fs (d', t)"
proof (cases "readFileSync fs tp")
  case (Inl e)
  with assms(1) show ?thesis by (simp add: copyFromTemplate_def)
next
  case (Inr cont)
  with assms(1) have "writeFileSync fs (d, f) (applyReplacements cont reps) = Inr fs'"
    by (simp add: copyFromTemplate_def)
  from writeFileSync_other [OF this assms(2)] show ?thesis .
qed

lemma applyChanges_other:
  assumes "applyChanges rules name reps fs out = Inl (e, fs', out') \<or>
           applyChanges rules name reps fs out = Inr (fs', out')"
    and "\<forall>rl\<in>set rules. (dir rl, newName rl name) \<noteq> (d', t)"
  shows "readFileSync fs' (d', t) = readFileSync fs (d', t)"
  using assms
proof (induction rules arbitrary: fs out)
  case Nil
  then show ?case by simp
next
  case (Cons rl rules)
  from Cons.prems(2) have others: "\<forall>r\<in>set rules. (dir r, newName r name) \<noteq> (d', t)"
    and this_one: "(d', t) \<noteq> (dir rl, newName rl name)" by auto
  show ?case
  proof (cases "existsSync fs (dir rl, oldName rl)")
    case False
    with Cons.prems(1) have
      "applyChanges rules name reps fs (out @ [Error (''Template not found: '' @ oldName rl)]) = Inl (e, fs', out') \<or>
       applyChanges rules name reps fs (out @ [Error (''Template not found: '' @ oldName rl)]) = Inr (fs', out')"
      by simp
    from Cons.IH [OF this others] show ?thesis .
  next
    case True
    show ?thesis
    proof (cases "copyFromTemplate fs (dir rl, oldName rl) (dir rl, newName rl name) reps")
      case (Inl err)
      with True Cons.prems(1) show ?thesis by simp
    next
      case (Inr fs1)
      with True Cons.prems(1) have
        "applyChanges rules name reps fs1 (out @ [Success (''Created: '' @ newName rl name)]) = Inl (e, fs', out') \<or>
         applyChanges rules name reps fs1 (out @ [Success (''Created: '' @ newName rl name)]) = Inr (fs', out')"
        by simp
      from Cons.IH [OF this others] copyFromTemplate_other [OF Inr this_one] show ?thesis by simp
    qed
  qed
qed

lemma main_apply_other:
  assumes "\<forall>rl\<in>set FILES. (dir rl, newName rl (ToString (vals ''MCP_NAME''))) \<noteq> (d', t)"
  shows "readFileSync (files (main_apply vals fs out)) (d', t) = readFileSync fs (d', t)"
proof (cases "applyChanges FILES (ToString (vals ''MCP_NAME'')) (buildReplacements vals) fs
                (out @ [Header ''Step 3: Applying Changes''])")
  case (Inl failure)
  obtain e fs' out' where failure: "failure = (e, fs', out')" by (cases failure)
  from applyChanges_other [OF disjI1, OF Inl [unfolded failure] assms]
  show ?thesis by (simp add: main_apply_def Inl failure failed_def del: readFileSync.simps)
next
  case (Inr res)
  obtain fs' out' where res: "res = (fs', out')" by (cases res)
  from applyChanges_other [OF disjI2, OF Inr [unfolded res] assms]
  show ?thesis by (simp add: main_apply_def Inr res del: readFileSync.simps)
qed

lemma main_gather_Inl_files: "main_gather fs ins = Inl r \<Longrightarrow> files r = fs"
  by (auto simp: main_gather_def Let_def awaiting_def failed_def split: list.splits sum.splits)

lemma main_review_other:
  assumes "\<forall>rl\<in>set FILES. (dir rl, newName rl (ToString (vals ''MCP_NAME''))) \<noteq> (d', t)"
  shows "readFileSync (files (main_review vals fs out ins)) (d', t) = readFileSync fs (d', t)"
  using main_apply_other [where vals = vals, OF assms]
  by (simp add: main_review_def main_overwrite_def Let_def awaiting_def cancelled_def
        split: list.splits del: readFileSync.simps)

lemma destination_is_not_template:
  assumes "name \<noteq> TEMPLATE_NAME" and "rl \<in> set FILES"
  shows "\<forall>r\<in>set FILES. (dir r, newName r name) \<noteq> (dir rl, oldName rl)"
  using assms by (auto simp: FILES_def)

lemma templates_kept:
  assumes "\<And>vals out rest. main_gather fs ins = Inr (vals, out, rest)
             \<Longrightarrow> ToString (vals ''MCP_NAME'') \<noteq> TEMPLATE_NAME"
    and "rl \<in> set FILES"
  shows "readFileSync (files (main fs ins)) (dir rl, oldName rl) = readFileSync fs (dir rl, oldName rl)"
proof (cases "main_gather fs ins")
  case (Inl r)
  then show ?thesis by (simp add: main_def main_gather_Inl_files del: readFileSync.simps)
next
  case (Inr collected)
  obtain vals out rest where collected: "collected = (vals, out, rest)" by (cases collected)
  from assms(1) [OF Inr [unfolded collected]] have "ToString (vals ''MCP_NAME'') \<noteq> TEMPLATE_NAME" .
  from main_review_other [where vals = vals, OF destination_is_not_template [OF this assms(2)]]
  show ?thesis by (simp add: main_def Inr collected del: readFileSync.simps)
qed

end
